theory Spec2Isabelle
  imports Complex_Main "HOL-Library.Word"
begin

section \<open>View inverses of the functionalization pass (ATen/FunctionalInverses.cpp)\<close>

text \<open>
  The file under verification holds one pure function per view operation: given the base
  tensor, the mutated view and the arguments of the forward view, it rebuilds a base.
  Each function is a thin layer over primitives of the tensor library (permute, unsqueeze,
  the scatter family, sum_to, ...). The functions of FunctionalInverses.cpp are translated
  line by line; the library primitives they call live elsewhere and are modelled on the
  logical contents of a tensor (its sizes and its elements in row-major order).

  Two functions of the file are left out: \<open>unfold_inverse\<close>, which only forwards to the
  window accumulation \<open>unfold_backward\<close>, and the dtype overload of \<open>view_inverse\<close>, which
  reinterprets the bytes of the elements.

  A C++ exception (TORCH_CHECK, TORCH_CHECK_INDEX, TORCH_INTERNAL_ASSERT) is a value
  \<open>Inl e\<close>; a returned tensor is \<open>Inr t\<close>. Sizes are \<open>nat\<close> and axes are \<open>int\<close>: a
  size is never negative and normalising an axis cannot overflow. The offsets of the split
  inverses are products and sums of \<open>int64_t\<close> arguments, which can overflow: they are
  64-bit words, read as signed values, and their arithmetic wraps around.
\<close>

subsection \<open>Errors\<close>

datatype error =
    InternalAssertFailed string  \<comment> \<open>TORCH_INTERNAL_ASSERT(false, msg)\<close>
  | IndexError                   \<comment> \<open>TORCH_CHECK_INDEX\<close>
  | RuntimeError                 \<comment> \<open>TORCH_CHECK\<close>
  | OutOfBounds                  \<comment> \<open>an unchecked read outside an IntArrayRef\<close>

subsection \<open>Tensors\<close>

text \<open>
  The element type \<open>'a\<close> stands for the tensor's dtype. \<open>elems\<close> lists the logical
  contents in row-major order of \<open>sizes\<close>; \<open>strides\<close> is carried as metadata.
\<close>

record 'a tensor =
  sizes :: "nat list"
  strides :: "nat list"
  elems :: "'a list"

definition wf_tensor :: "'a tensor \<Rightarrow> bool" where
  "wf_tensor t \<longleftrightarrow>
     length (elems t) = prod_list (sizes t) \<and> length (strides t) = length (sizes t)"

fun contiguous_strides :: "nat list \<Rightarrow> nat list" where
  "contiguous_strides [] = []"
| "contiguous_strides (n # ns) = prod_list (map (max 1) ns) # contiguous_strides ns"

fun offset_of :: "nat list \<Rightarrow> nat list \<Rightarrow> nat" where
  "offset_of (n # ns) (i # js) = i * prod_list ns + offset_of ns js"
| "offset_of _ _ = 0"

fun unflatten :: "nat list \<Rightarrow> nat \<Rightarrow> nat list" where
  "unflatten [] k = []"
| "unflatten (n # ns) k = (k div prod_list ns) # unflatten ns (k mod prod_list ns)"

definition in_bounds :: "nat list \<Rightarrow> nat list \<Rightarrow> bool" where
  "in_bounds s idx \<longleftrightarrow> list_all2 (<) idx s"

definition indices :: "nat list \<Rightarrow> nat list list" where
  "indices s = map (unflatten s) [0..<prod_list s]"

definition elem_at :: "'a tensor \<Rightarrow> nat list \<Rightarrow> 'a" where
  "elem_at t idx = elems t ! offset_of (sizes t) idx"

definition tabulate :: "nat list \<Rightarrow> (nat list \<Rightarrow> 'a) \<Rightarrow> 'a tensor" where
  "tabulate s f = \<lparr>sizes = s, strides = contiguous_strides s, elems = map f (indices s)\<rparr>"

subsection \<open>Axis normalizer\<close>

text \<open>
  Modelled from the spec: \<open>at::maybe_wrap_dim\<close> (c10/core/WrapDimMinimal.h, not part of
  FunctionalInverses.cpp), the axis normalizer that wraps a possibly negative axis into
  \<open>[0, rank)\<close> and reports an index error outside \<open>[-rank, rank)\<close>. A rank of zero is
  treated as rank one, so that a scalar accepts the axes \<open>-1\<close> and \<open>0\<close>.
\<close>

definition maybe_wrap_dim :: "int \<Rightarrow> nat \<Rightarrow> error + nat" where
  "maybe_wrap_dim dm dim_post_expr =
     (let n = (if dim_post_expr = 0 then 1 else int dim_post_expr) in
      if dm < - n \<or> dm > n - 1 then Inl IndexError
      else Inr (nat (if dm < 0 then dm + n else dm)))"

text \<open>
  Modelled from the spec: \<open>Tensor::size(dim)\<close> (the array library): the size of one axis,
  the axis normalised first; a tensor of rank zero has no axis to ask for.
\<close>

definition size_dim :: "'a tensor \<Rightarrow> int \<Rightarrow> error + nat" where
  "size_dim self dm =
     (if sizes self = [] then Inl IndexError
      else case maybe_wrap_dim dm (length (sizes self)) of
             Inl e \<Rightarrow> Inl e
           | Inr d \<Rightarrow> Inr (sizes self ! d))"

subsection \<open>Unsupported paths\<close>

text \<open>
  An identifier cannot start with an underscore: \<open>_fw_primal_inverse\<close> is
  \<open>fw_primal_inverse\<close>, and \<open>_indices_inverse\<close> and \<open>_values_inverse\<close> are
  \<open>indices_inverse_internal\<close> and \<open>values_inverse_internal\<close>, apart from
  \<open>indices_inverse\<close> and \<open>values_inverse\<close>. Likewise \<open>_conj_inverse\<close>,
  \<open>_neg_view_inverse\<close> and \<open>_reshape_alias_inverse\<close> below lose the underscore, and the
  two overloads of \<open>squeeze_inverse\<close>, \<open>unsqueeze_to\<close> and \<open>permute_inverse\<close> get
  distinct names (\<open>squeeze_inverse_dim\<close>, \<open>unsqueeze_to_dim\<close>, \<open>permute_inverse_self\<close>).
\<close>

definition fw_primal_inverse :: "'a tensor \<Rightarrow> 'a tensor \<Rightarrow> int \<Rightarrow> error + 'a tensor" where
  "fw_primal_inverse base mutated_view level =
     Inl (InternalAssertFailed
       ''Attempted to call _fw_primal() during the functionalization pass. For now, this is not supported.'')"

definition as_strided_inverse ::
  "'a tensor \<Rightarrow> 'a tensor \<Rightarrow> int list \<Rightarrow> int list \<Rightarrow> int option \<Rightarrow> error + 'a tensor" where
  "as_strided_inverse base mutated_view sz stride storage_offset =
     Inl (InternalAssertFailed
       ''as_strided has not been implemented in the functionalization pass yet'')"

definition indices_inverse_internal :: "'a tensor \<Rightarrow> 'a tensor \<Rightarrow> error + 'a tensor" where
  "indices_inverse_internal base mutated_view =
     Inl (InternalAssertFailed
       ''Attempted to call _indices() during the functionalization pass. For now, sparse tensors aren't supported during functionalization'')"

definition values_inverse_internal :: "'a tensor \<Rightarrow> 'a tensor \<Rightarrow> error + 'a tensor" where
  "values_inverse_internal base mutated_view =
     Inl (InternalAssertFailed
       ''Attempted to call _values() during the functionalization pass. For now, sparse tensors aren't supported during functionalization'')"

definition indices_inverse :: "'a tensor \<Rightarrow> 'a tensor \<Rightarrow> error + 'a tensor" where
  "indices_inverse base mutated_view =
     Inl (InternalAssertFailed
       ''Attempted to call indices() during the functionalization pass. For now, sparse tensors aren't supported during functionalization'')"

definition values_inverse :: "'a tensor \<Rightarrow> 'a tensor \<Rightarrow> error + 'a tensor" where
  "values_inverse base mutated_view =
     Inl (InternalAssertFailed
       ''Attempted to call values() during the functionalization pass. For now, sparse tensors aren't supported during functionalization'')"

definition crow_indices_inverse :: "'a tensor \<Rightarrow> 'a tensor \<Rightarrow> error + 'a tensor" where
  "crow_indices_inverse base mutated_view =
     Inl (InternalAssertFailed
       ''Attempted to call crow_indices() during the functionalization pass. For now, sparse tensors aren't supported during functionalization'')"

definition col_indices_inverse :: "'a tensor \<Rightarrow> 'a tensor \<Rightarrow> error + 'a tensor" where
  "col_indices_inverse base mutated_view =
     Inl (InternalAssertFailed
       ''Attempted to call col_indices() during the functionalization pass. For now, sparse tensors aren't supported during functionalization'')"

subsection \<open>Library primitives: axis insertion and reinterpretation\<close>

text \<open>
  Modelled from the spec: \<open>Tensor::unsqueeze\<close> (the array library, not part of
  FunctionalInverses.cpp): normalise the axis against rank + 1 and insert a singleton
  axis there; the contents are untouched.
\<close>

definition unsqueeze :: "'a tensor \<Rightarrow> int \<Rightarrow> error + 'a tensor" where
  "unsqueeze self dm =
     (case maybe_wrap_dim dm (length (sizes self) + 1) of
        Inl e \<Rightarrow> Inl e
      | Inr d \<Rightarrow>
          Inr (self\<lparr>sizes := take d (sizes self) @ [1] @ drop d (sizes self),
                    strides := take d (strides self)
                      @ [if d \<ge> length (sizes self) then 1 else sizes self ! d * strides self ! d]
                      @ drop d (strides self)\<rparr>))"

text \<open>
  Modelled from the spec: \<open>Tensor::view(shape)\<close> and \<open>Tensor::_reshape_alias\<close> (the array
  library): reinterpret the contiguous-equivalent contents under another shape (and
  strides); the element counts must agree, and the primitive reports a violation.
\<close>

definition view_shape :: "'a tensor \<Rightarrow> nat list \<Rightarrow> error + 'a tensor" where
  "view_shape self sz =
     (if prod_list sz = prod_list (sizes self)
      then Inr \<lparr>sizes = sz, strides = contiguous_strides sz, elems = elems self\<rparr>
      else Inl RuntimeError)"

definition reshape_alias :: "'a tensor \<Rightarrow> nat list \<Rightarrow> nat list \<Rightarrow> error + 'a tensor" where
  "reshape_alias self sz stride =
     (if prod_list sz = prod_list (sizes self)
      then Inr \<lparr>sizes = sz, strides = stride, elems = elems self\<rparr>
      else Inl RuntimeError)"

subsection \<open>Library primitives: sum-to-shape and expand\<close>

text \<open>
  \<open>fibre vs bs idx\<close> lists the coordinates of the trailing axes of the view (sizes \<open>vs\<close>)
  that are reduced into the coordinate \<open>idx\<close> of the target shape \<open>bs\<close>: an axis whose
  target size is 1 while the view's is not ranges over the whole axis, any other axis
  keeps its coordinate.
\<close>

fun fibre :: "nat list \<Rightarrow> nat list \<Rightarrow> nat list \<Rightarrow> nat list list" where
  "fibre (n # vs) (b # bs) (i # js) =
     (if b = 1 \<and> n \<noteq> 1
      then concat (map (\<lambda>k. map ((#) k) (fibre vs bs js)) [0..<n])
      else map ((#) i) (fibre vs bs js))"
| "fibre _ _ _ = [[]]"

text \<open>
  Modelled from the spec: \<open>at::sum_to\<close> (ATen/ExpandUtils.h, not part of
  FunctionalInverses.cpp), the sum-to-shape reduction: every axis of the tensor that the
  target shape does not have (the leading ones) is summed away, every axis where the target
  size is 1 and the tensor's size is not is summed and kept with size 1; the result is
  viewed under the target shape when leading axes were removed.
\<close>

definition sum_to :: "'a::comm_monoid_add tensor \<Rightarrow> nat list \<Rightarrow> error + 'a tensor" where
  "sum_to t shape =
     (if length (sizes t) < length shape then Inl OutOfBounds
      else
        let leading_dims = length (sizes t) - length shape;
            lead = take leading_dims (sizes t);
            vs = drop leading_dims (sizes t);
            kept = map2 (\<lambda>n b. if b = 1 \<and> n \<noteq> 1 then 1 else n) vs shape;
            reduced = tabulate kept
              (\<lambda>idx. sum_list (concat (map (\<lambda>l. map (\<lambda>r. elem_at t (l @ r)) (fibre vs shape idx))
                                           (indices lead))))
        in if leading_dims > 0 then view_shape reduced shape else Inr reduced)"

text \<open>
  Modelled from the spec: \<open>Tensor::expand\<close> (the array library), the forward broadcast:
  the target has at least the rank of the tensor; aligned from the right, each axis keeps
  its size (a target of -1 keeps it too) or is broadcast from size 1; new leading axes
  repeat the whole tensor.
\<close>

fun expand_sizes :: "nat list \<Rightarrow> int list \<Rightarrow> (error + nat list)" where
  "expand_sizes [] [] = Inr []"
| "expand_sizes (n # ns) (t # ts) =
     (case expand_sizes ns ts of
        Inl e \<Rightarrow> Inl e
      | Inr r \<Rightarrow>
          if t = -1 \<or> t = int n then Inr (n # r)
          else if n = 1 \<and> t \<ge> 0 then Inr (nat t # r)
          else Inl RuntimeError)"
| "expand_sizes _ _ = Inl RuntimeError"

definition expand :: "'a tensor \<Rightarrow> int list \<Rightarrow> bool \<Rightarrow> error + 'a tensor" where
  "expand self sz implicit =
     (if length sz < length (sizes self) then Inl RuntimeError
      else
        let leading_dims = length sz - length (sizes self) in
        if \<exists>t \<in> set (take leading_dims sz). t < 0 then Inl RuntimeError
        else
          case expand_sizes (sizes self) (drop leading_dims sz) of
            Inl e \<Rightarrow> Inl e
          | Inr r \<Rightarrow>
              Inr (tabulate (map nat (take leading_dims sz) @ r)
                (\<lambda>idx. elem_at self
                   (map2 (\<lambda>i n. if n = 1 then 0 else i) (drop leading_dims idx) (sizes self)))))"

subsection \<open>Library primitives: complex views, conjugation, negation\<close>

text \<open>
  Modelled from the spec: \<open>at::view_as_complex\<close>, \<open>at::view_as_real\<close>,
  \<open>Tensor::resolve_conj\<close>, \<open>Tensor::conj\<close> and \<open>Tensor::neg\<close> (the array library). A real
  tensor whose last axis has size 2 is read as a complex tensor without that axis, and back;
  resolving a conjugate view leaves the logical values; conj and neg act elementwise.
  Floating-point numbers are idealised as \<open>real\<close> and \<open>complex\<close>.
\<close>

fun complex_pairs :: "real list \<Rightarrow> complex list" where
  "complex_pairs (x # y # r) = Complex x y # complex_pairs r"
| "complex_pairs _ = []"

definition view_as_complex :: "real tensor \<Rightarrow> error + complex tensor" where
  "view_as_complex self =
     (if sizes self = [] \<or> last (sizes self) \<noteq> 2 then Inl RuntimeError
      else Inr \<lparr>sizes = butlast (sizes self),
                strides = map (\<lambda>s. s div 2) (butlast (strides self)),
                elems = complex_pairs (elems self)\<rparr>)"

definition view_as_real :: "complex tensor \<Rightarrow> error + real tensor" where
  "view_as_real self =
     Inr \<lparr>sizes = sizes self @ [2],
          strides = map (\<lambda>s. 2 * s) (strides self) @ [1],
          elems = concat (map (\<lambda>z. [Re z, Im z]) (elems self))\<rparr>"

definition resolve_conj :: "complex tensor \<Rightarrow> complex tensor" where
  "resolve_conj self = self"

definition conj :: "complex tensor \<Rightarrow> complex tensor" where
  "conj self = self\<lparr>elems := map cnj (elems self)\<rparr>"

definition neg :: "'a::uminus tensor \<Rightarrow> 'a tensor" where
  "neg self = self\<lparr>elems := map uminus (elems self)\<rparr>"

subsection \<open>Helpers of FunctionalInverses.cpp\<close>

text \<open>\<open>unsqueeze_to(self, sizes)\<close>: the loop over every position of the target shape.\<close>

definition unsqueeze_to :: "'a tensor \<Rightarrow> nat list \<Rightarrow> error + 'a tensor" where
  "unsqueeze_to self sz =
     fold (\<lambda>d result. case result of
                         Inl e \<Rightarrow> Inl e
                       | Inr r \<Rightarrow> if sz ! d = 1 then unsqueeze r (int d) else Inr r)
          [0..<length sz] (Inr self)"

text \<open>\<open>unsqueeze_to(self, dim, sizes)\<close>: one axis, guarded by the non-empty shape.\<close>

definition unsqueeze_to_dim :: "'a tensor \<Rightarrow> int \<Rightarrow> nat list \<Rightarrow> error + 'a tensor" where
  "unsqueeze_to_dim self dm sz =
     (case maybe_wrap_dim dm (length sz) of
        Inl e \<Rightarrow> Inl e
      | Inr d \<Rightarrow> if length sz > 0 \<and> sz ! d = 1 then unsqueeze self (int d) else Inr self)"

subsection \<open>Inverses that transform the mutated view alone\<close>

definition view_as_real_inverse :: "'b tensor \<Rightarrow> real tensor \<Rightarrow> error + complex tensor" where
  "view_as_real_inverse base mutated_view = view_as_complex mutated_view"

definition view_as_complex_inverse :: "'b tensor \<Rightarrow> complex tensor \<Rightarrow> error + real tensor" where
  "view_as_complex_inverse base mutated_view = view_as_real (resolve_conj mutated_view)"

definition conj_inverse :: "'b tensor \<Rightarrow> complex tensor \<Rightarrow> error + complex tensor" where
  "conj_inverse base mutated_view = Inr (conj mutated_view)"

definition neg_view_inverse :: "'b tensor \<Rightarrow> 'a::uminus tensor \<Rightarrow> error + 'a tensor" where
  "neg_view_inverse base mutated_view = Inr (neg mutated_view)"

definition detach_inverse :: "'b tensor \<Rightarrow> 'a tensor \<Rightarrow> error + 'a tensor" where
  "detach_inverse base mutated_view = Inr mutated_view"

definition alias_inverse :: "'b tensor \<Rightarrow> 'a tensor \<Rightarrow> error + 'a tensor" where
  "alias_inverse base mutated_view = Inr mutated_view"

subsection \<open>Inverses of expansion, reshaping and squeezing\<close>

definition expand_inverse ::
  "'b tensor \<Rightarrow> 'a::comm_monoid_add tensor \<Rightarrow> int list \<Rightarrow> bool \<Rightarrow> error + 'a tensor" where
  "expand_inverse base mutated_view sz implicit = sum_to mutated_view (sizes base)"

definition reshape_alias_inverse ::
  "'b tensor \<Rightarrow> 'a tensor \<Rightarrow> int list \<Rightarrow> int list \<Rightarrow> error + 'a tensor" where
  "reshape_alias_inverse base mutated_view sz stride =
     reshape_alias mutated_view (sizes base) (strides base)"

definition view_inverse :: "'b tensor \<Rightarrow> 'a tensor \<Rightarrow> int list \<Rightarrow> error + 'a tensor" where
  "view_inverse base mutated_view sz = view_shape mutated_view (sizes base)"

definition squeeze_inverse :: "'b tensor \<Rightarrow> 'a tensor \<Rightarrow> error + 'a tensor" where
  "squeeze_inverse base mutated_view = unsqueeze_to mutated_view (sizes base)"

definition squeeze_inverse_dim :: "'b tensor \<Rightarrow> 'a tensor \<Rightarrow> int \<Rightarrow> error + 'a tensor" where
  "squeeze_inverse_dim base mutated_view dm = unsqueeze_to_dim mutated_view dm (sizes base)"


subsection \<open>Library primitives: scatter into a slice\<close>

text \<open>
  Modelled from the spec: \<open>Tensor::slice_scatter\<close> (the array library), the scatter
  primitive for the region \<open>(dim, start, end, step)\<close>: a copy of the tensor in which the
  half-open, step-aware slice is replaced by the source and everything else is unchanged.
  The bounds are normalised as slicing does (absent bounds are the whole axis, negative
  bounds count from the end, both are clamped to the axis); the source must have the shape
  of the slice.
\<close>

definition slice_bounds :: "nat \<Rightarrow> int option \<Rightarrow> int option \<Rightarrow> nat \<times> nat" where
  "slice_bounds n start end =
     (let start_val = (case start of None \<Rightarrow> 0 | Some s \<Rightarrow> s);
          start_val = (if start_val < 0 then start_val + int n else start_val);
          start_val = (if start_val < 0 then 0
                       else if start_val \<ge> int n then int n else start_val);
          end_val = (case end of None \<Rightarrow> int n
                     | Some e \<Rightarrow> if e < 0 then e + int n else e);
          end_val = (if end_val < start_val then start_val
                     else if end_val \<ge> int n then int n else end_val)
      in (nat start_val, nat end_val))"

definition slice_scatter ::
  "'a tensor \<Rightarrow> 'a tensor \<Rightarrow> int \<Rightarrow> int option \<Rightarrow> int option \<Rightarrow> int \<Rightarrow> error + 'a tensor" where
  "slice_scatter self src dm start end step =
     (if sizes self = [] then Inl IndexError
      else case maybe_wrap_dim dm (length (sizes self)) of
        Inl e \<Rightarrow> Inl e
      | Inr d \<Rightarrow>
          if step \<le> 0 then Inl RuntimeError
          else
            let (s, e) = slice_bounds (sizes self ! d) start end;
                st = nat step;
                len = (e - s + st - 1) div st
            in if sizes src \<noteq> (sizes self)[d := len] then Inl RuntimeError
               else Inr (tabulate (sizes self)
                 (\<lambda>idx. let i = idx ! d in
                    if s \<le> i \<and> i < e \<and> (i - s) mod st = 0
                    then elem_at src (idx[d := (i - s) div st])
                    else elem_at self idx)))"

subsection \<open>Inverses of slice and split\<close>

definition slice_inverse ::
  "'a tensor \<Rightarrow> 'a tensor \<Rightarrow> int \<Rightarrow> int option \<Rightarrow> int option \<Rightarrow> int \<Rightarrow> error + 'a tensor" where
  "slice_inverse base mutated_view dm start end step =
     slice_scatter base mutated_view dm start end step"

text \<open>
  The values that fit \<open>int64_t\<close>: an operation of the source whose exact result lies
  here does not overflow.
\<close>

definition in_int64 :: "int \<Rightarrow> bool" where
  "in_int64 x \<longleftrightarrow> - (2 ^ 63) \<le> x \<and> x < 2 ^ 63"

text \<open>
  \<open>split_inverse\<close>: \<open>start\<close> and \<open>end\<close> are computed in \<open>int64_t\<close>; \<open>end\<close> is compared, as
  a signed value, with the size of the axis and clamped to it.
\<close>

definition split_inverse ::
  "'a tensor \<Rightarrow> 'a tensor \<Rightarrow> 64 word \<Rightarrow> 64 word \<Rightarrow> int \<Rightarrow> error + 'a tensor" where
  "split_inverse base mutated_view mutated_view_idx split_size dm =
     (case maybe_wrap_dim dm (length (sizes base)) of
        Inl e \<Rightarrow> Inl e
      | Inr d \<Rightarrow>
          (case size_dim base (int d) of
             Inl e \<Rightarrow> Inl e
           | Inr dim_size \<Rightarrow>
               let start = mutated_view_idx * split_size;
                   end = start + split_size;
                   end = (if sint end > int dim_size then int dim_size else sint end)
               in slice_scatter base mutated_view (int d) (Some (sint start)) (Some end) 1))"

text \<open>
  The loop of \<open>split_with_sizes_inverse\<close> adds \<open>split_sizes[i]\<close>, in \<open>int64_t\<close>, for \<open>i\<close>
  below the index of the view. The source reads the array unchecked: a negative index, or
  one at or beyond the length of the array, is \<open>OutOfBounds\<close>. The counter \<open>i\<close> is a 32-bit
  \<open>int\<close>: an index above \<open>2^31 - 1\<close> makes the counter overflow and read outside the array
  as well.
\<close>

definition split_with_sizes_inverse ::
  "'a tensor \<Rightarrow> 'a tensor \<Rightarrow> 64 word \<Rightarrow> 64 word list \<Rightarrow> int \<Rightarrow> error + 'a tensor" where
  "split_with_sizes_inverse base mutated_view mutated_view_idx split_sizes dm =
     (case maybe_wrap_dim dm (length (sizes base)) of
        Inl e \<Rightarrow> Inl e
      | Inr d \<Rightarrow>
          (case size_dim base (int d) of
             Inl e \<Rightarrow> Inl e
           | Inr dim_size \<Rightarrow>
               if sint mutated_view_idx < 0 \<or> sint mutated_view_idx > 2 ^ 31 - 1
                  \<or> nat (sint mutated_view_idx) \<ge> length split_sizes
               then Inl OutOfBounds
               else
                 let start = fold (\<lambda>i start. start + split_sizes ! i)
                                  [0..<nat (sint mutated_view_idx)] 0;
                     end = start + split_sizes ! nat (sint mutated_view_idx);
                     end = (if sint end > int dim_size then int dim_size else sint end)
                 in slice_scatter base mutated_view (int d) (Some (sint start)) (Some end) 1))"

subsection \<open>Library primitives: scatter onto a diagonal or a single index\<close>

definition remove_nth :: "nat \<Rightarrow> 'b list \<Rightarrow> 'b list" where
  "remove_nth k xs = take k xs @ drop (Suc k) xs"

text \<open>
  Modelled from the spec: \<open>Tensor::diagonal_scatter\<close> (the array library), the scatter
  primitive for the region \<open>(offset, dim1, dim2)\<close>: a copy of the tensor in which the
  diagonal with that offset between the two axes is replaced by the source and everything
  else is unchanged. The source has the shape of the diagonal view: the two axes removed and
  the length of the diagonal appended.
\<close>

definition diagonal_scatter ::
  "'a tensor \<Rightarrow> 'a tensor \<Rightarrow> int \<Rightarrow> int \<Rightarrow> int \<Rightarrow> error + 'a tensor" where
  "diagonal_scatter self src offset dim1 dim2 =
     (case maybe_wrap_dim dim1 (length (sizes self)) of
        Inl e \<Rightarrow> Inl e
      | Inr d1 \<Rightarrow>
         (case maybe_wrap_dim dim2 (length (sizes self)) of
            Inl e \<Rightarrow> Inl e
          | Inr d2 \<Rightarrow>
              if d1 = d2 then Inl RuntimeError
              else
                let n1 = int (sizes self ! d1);
                    n2 = int (sizes self ! d2);
                    diag_size = (if offset \<ge> 0 then max (min n1 (n2 - offset)) 0
                                 else max (min (n1 + offset) n2) 0);
                    rest = remove_nth (min d1 d2) (remove_nth (max d1 d2) (sizes self))
                in if sizes src \<noteq> rest @ [nat diag_size] then Inl RuntimeError
                   else Inr (tabulate (sizes self)
                     (\<lambda>idx. if int (idx ! d2) - int (idx ! d1) = offset
                        then elem_at src
                               (remove_nth (min d1 d2) (remove_nth (max d1 d2) idx)
                                  @ [if offset \<ge> 0 then idx ! d1 else idx ! d2])
                        else elem_at self idx))))"

text \<open>
  Modelled from the spec: \<open>Tensor::select_scatter\<close> (the array library), the scatter
  primitive for the single-index region \<open>(dim, index)\<close>; the source has the shape of the
  tensor without that axis.
\<close>

definition select_scatter ::
  "'a tensor \<Rightarrow> 'a tensor \<Rightarrow> int \<Rightarrow> int \<Rightarrow> error + 'a tensor" where
  "select_scatter self src dm index =
     (if sizes self = [] then Inl IndexError
      else case maybe_wrap_dim dm (length (sizes self)) of
        Inl e \<Rightarrow> Inl e
      | Inr d \<Rightarrow>
          let n = int (sizes self ! d) in
          if index < - n \<or> index \<ge> n then Inl IndexError
          else
            let i = nat (if index < 0 then index + n else index) in
            if sizes src \<noteq> remove_nth d (sizes self) then Inl RuntimeError
            else Inr (tabulate (sizes self)
              (\<lambda>idx. if idx ! d = i then elem_at src (remove_nth d idx)
                      else elem_at self idx)))"

subsection \<open>Inverses of diagonal, select and unbind\<close>

definition diagonal_inverse ::
  "'a tensor \<Rightarrow> 'a tensor \<Rightarrow> int \<Rightarrow> int \<Rightarrow> int \<Rightarrow> error + 'a tensor" where
  "diagonal_inverse base mutated_view offset dim1 dim2 =
     diagonal_scatter base mutated_view offset dim1 dim2"

definition select_inverse ::
  "'a tensor \<Rightarrow> 'a tensor \<Rightarrow> int \<Rightarrow> int \<Rightarrow> error + 'a tensor" where
  "select_inverse base mutated_view dm index = select_scatter base mutated_view dm index"

definition unbind_inverse ::
  "'a tensor \<Rightarrow> 'a tensor \<Rightarrow> int \<Rightarrow> int \<Rightarrow> error + 'a tensor" where
  "unbind_inverse base mutated_view mutated_view_idx dm =
     (case maybe_wrap_dim dm (length (sizes base)) of
        Inl e \<Rightarrow> Inl e
      | Inr d \<Rightarrow> select_scatter base mutated_view (int d) mutated_view_idx)"

subsection \<open>Library primitives: axis permutation\<close>

text \<open>
  \<open>place p idx\<close> is the coordinate \<open>c\<close> with \<open>c[p[k]] = idx[k]\<close> for every \<open>k\<close>: the
  coordinate of the source that a permuted tensor reads at \<open>idx\<close>.
\<close>

definition place :: "nat list \<Rightarrow> nat list \<Rightarrow> nat list" where
  "place p idx =
     fold (\<lambda>k acc. acc[p ! k := idx ! k]) [0..<length p] (replicate (length p) 0)"

fun permute_dims :: "int list \<Rightarrow> nat \<Rightarrow> nat list \<Rightarrow> error + nat list" where
  "permute_dims [] n seen = Inr []"
| "permute_dims (d # ds) n seen =
     (case maybe_wrap_dim d n of
        Inl e \<Rightarrow> Inl e
      | Inr k \<Rightarrow>
          if k \<in> set seen then Inl RuntimeError
          else (case permute_dims ds n (k # seen) of
                  Inl e \<Rightarrow> Inl e
                | Inr r \<Rightarrow> Inr (k # r)))"

text \<open>
  Modelled from the spec: \<open>Tensor::permute\<close> (the array library): as many axes as the tensor
  has, each normalised, none repeated; axis \<open>i\<close> of the result is axis \<open>dims[i]\<close> of the
  tensor, for the sizes, the strides and the elements.
\<close>

definition permute :: "'a tensor \<Rightarrow> int list \<Rightarrow> error + 'a tensor" where
  "permute self dims =
     (if length dims \<noteq> length (sizes self) then Inl RuntimeError
      else case permute_dims dims (length (sizes self)) [] of
        Inl e \<Rightarrow> Inl e
      | Inr ds \<Rightarrow>
          Inr \<lparr>sizes = map (\<lambda>d. sizes self ! d) ds,
               strides = map (\<lambda>d. strides self ! d) ds,
               elems = map (\<lambda>idx. elem_at self (place ds idx))
                           (indices (map (\<lambda>d. sizes self ! d) ds))\<rparr>)"

subsection \<open>Inverse of permute\<close>

text \<open>
  The loop of \<open>permute_inverse(self, dims)\<close>: \<open>dims_[maybe_wrap_dim(dims[i], ndims)] = i\<close>
  for \<open>i\<close> from 0 to \<open>ndims - 1\<close>, on a vector of \<open>ndims\<close> zeros.
\<close>

fun invert_loop :: "int list \<Rightarrow> nat \<Rightarrow> nat list \<Rightarrow> int list \<Rightarrow> error + int list" where
  "invert_loop dims ndims [] dims_inv = Inr dims_inv"
| "invert_loop dims ndims (i # rest) dims_inv =
     (case maybe_wrap_dim (dims ! i) ndims of
        Inl e \<Rightarrow> Inl e
      | Inr k \<Rightarrow> invert_loop dims ndims rest (dims_inv[k := int i]))"

definition inverted_dims :: "int list \<Rightarrow> error + int list" where
  "inverted_dims dims =
     (let ndims = length dims
      in invert_loop dims ndims [0..<ndims] (replicate ndims 0))"

definition permute_inverse_self :: "'a tensor \<Rightarrow> int list \<Rightarrow> error + 'a tensor" where
  "permute_inverse_self self dims =
     (case inverted_dims dims of
        Inl e \<Rightarrow> Inl e
      | Inr dims_inv \<Rightarrow> permute self dims_inv)"

definition permute_inverse :: "'b tensor \<Rightarrow> 'a tensor \<Rightarrow> int list \<Rightarrow> error + 'a tensor" where
  "permute_inverse base mutated_view dims = permute_inverse_self mutated_view dims"

text \<open>Applying \<open>permute_inverse\<close> with the same \<open>dims\<close> a second time, to its own result.\<close>

definition permute_inverse_twice :: "'b tensor \<Rightarrow> 'a tensor \<Rightarrow> int list \<Rightarrow> error + 'a tensor" where
  "permute_inverse_twice base x dims =
     (case permute_inverse base x dims of
        Inl e \<Rightarrow> Inl e
      | Inr y \<Rightarrow> permute_inverse base y dims)"

text \<open>A list of \<open>n\<close> axes that names every axis below \<open>n\<close> once.\<close>

definition is_perm :: "nat \<Rightarrow> nat list \<Rightarrow> bool" where
  "is_perm n p \<longleftrightarrow> length p = n \<and> distinct p \<and> (\<forall>k<n. p ! k < n)"

subsection \<open>Library primitives: transpose and squeeze\<close>

text \<open>
  Modelled from the spec: \<open>Tensor::transpose\<close>, \<open>Tensor::t\<close> and \<open>Tensor::squeeze(dim)\<close>
  (the array library): transpose swaps two normalised axes, \<open>t\<close> (here \<open>tensor_t\<close>) is the
  transpose of a tensor of rank at most 2, and squeeze removes the normalised axis when its size is 1.
\<close>

definition transpose_dims :: "'a tensor \<Rightarrow> int \<Rightarrow> int \<Rightarrow> error + 'a tensor" where
  "transpose_dims self dim0 dim1 =
     (case maybe_wrap_dim dim0 (length (sizes self)) of
        Inl e \<Rightarrow> Inl e
      | Inr d0 \<Rightarrow>
         (case maybe_wrap_dim dim1 (length (sizes self)) of
            Inl e \<Rightarrow> Inl e
          | Inr d1 \<Rightarrow>
              if d0 = d1 then Inr self
              else permute self (map int ([0..<length (sizes self)][d0 := d1, d1 := d0]))))"

definition tensor_t :: "'a tensor \<Rightarrow> error + 'a tensor" where
  "tensor_t self =
     (if length (sizes self) > 2 then Inl RuntimeError
      else transpose_dims self 0 (if length (sizes self) < 2 then 0 else 1))"

definition squeeze_dim :: "'a tensor \<Rightarrow> int \<Rightarrow> error + 'a tensor" where
  "squeeze_dim self dm =
     (case maybe_wrap_dim dm (length (sizes self)) of
        Inl e \<Rightarrow> Inl e
      | Inr d \<Rightarrow>
          if sizes self = [] \<or> sizes self ! d \<noteq> 1 then Inr self
          else Inr (self\<lparr>sizes := remove_nth d (sizes self),
                         strides := remove_nth d (strides self)\<rparr>))"

subsection \<open>Inverses of transpose and unsqueeze\<close>

definition t_inverse :: "'b tensor \<Rightarrow> 'a tensor \<Rightarrow> error + 'a tensor" where
  "t_inverse base mutated_view = tensor_t mutated_view"

definition transpose_inverse :: "'b tensor \<Rightarrow> 'a tensor \<Rightarrow> int \<Rightarrow> int \<Rightarrow> error + 'a tensor" where
  "transpose_inverse base mutated_view dim0 dim1 = transpose_dims mutated_view dim0 dim1"

definition unsqueeze_inverse :: "'b tensor \<Rightarrow> 'a tensor \<Rightarrow> int \<Rightarrow> error + 'a tensor" where
  "unsqueeze_inverse base mutated_view dm = squeeze_dim mutated_view dm"

subsection \<open>Outcomes\<close>

definition succeeds :: "error + 'b \<Rightarrow> bool" where
  "succeeds r = (case r of Inl _ \<Rightarrow> False | Inr _ \<Rightarrow> True)"

definition is_internal_assert :: "error + 'b \<Rightarrow> bool" where
  "is_internal_assert r =
     (case r of Inl (InternalAssertFailed _) \<Rightarrow> True | _ \<Rightarrow> False)"

section \<open>Properties\<close>

subsection \<open>Row-major indexing\<close>

lemma length_indices: "length (indices s) = prod_list s"
  by (simp add: indices_def)

lemma in_bounds_Nil: "in_bounds [] idx \<longleftrightarrow> idx = []"
  by (simp add: in_bounds_def)

lemma in_bounds_Cons: "in_bounds (n # ns) idx \<longleftrightarrow> (\<exists>i js. idx = i # js \<and> i < n \<and> in_bounds ns js)"
  by (cases idx) (auto simp: in_bounds_def)

lemma in_bounds_length: "in_bounds s idx \<Longrightarrow> length idx = length s"
  by (simp add: in_bounds_def list_all2_lengthD)

lemma in_bounds_nth: "in_bounds s idx \<Longrightarrow> k < length s \<Longrightarrow> idx ! k < s ! k"
  by (simp add: in_bounds_def list_all2_conv_all_nth)

lemma in_boundsI: "length idx = length s \<Longrightarrow> (\<And>k. k < length s \<Longrightarrow> idx ! k < s ! k) \<Longrightarrow> in_bounds s idx"
  by (simp add: in_bounds_def list_all2_conv_all_nth)

lemma offset_of_less: "in_bounds s idx \<Longrightarrow> offset_of s idx < prod_list s"
proof (induction s arbitrary: idx)
  case Nil
  then show ?case by (simp add: in_bounds_Nil)
next
  case (Cons n ns)
  then obtain i js where idx: "idx = i # js" "i < n" "in_bounds ns js"
    by (auto simp: in_bounds_Cons)
  then have "offset_of ns js < prod_list ns" using Cons.IH by blast
  moreover have "i * prod_list ns + prod_list ns \<le> n * prod_list ns"
    using idx(2) by (metis Suc_leI mult_Suc mult_le_mono1 add.commute)
  ultimately show ?case using idx by simp
qed

lemma unflatten_offset_of: "in_bounds s idx \<Longrightarrow> unflatten s (offset_of s idx) = idx"
proof (induction s arbitrary: idx)
  case Nil
  then show ?case by (simp add: in_bounds_Nil)
next
  case (Cons n ns)
  then obtain i js where idx: "idx = i # js" "i < n" "in_bounds ns js"
    by (auto simp: in_bounds_Cons)
  have lt: "offset_of ns js < prod_list ns" using idx(3) by (rule offset_of_less)
  then show ?case using idx Cons.IH [OF idx(3)] by simp
qed

lemma in_bounds_unflatten: "k < prod_list s \<Longrightarrow> in_bounds s (unflatten s k)"
proof (induction s arbitrary: k)
  case Nil
  then show ?case by (simp add: in_bounds_Nil)
next
  case (Cons n ns)
  have pos: "0 < prod_list ns" using Cons.prems by (cases "prod_list ns") auto
  have "k div prod_list ns < n"
    using Cons.prems pos by (simp add: less_mult_imp_div_less mult.commute)
  moreover have "in_bounds ns (unflatten ns (k mod prod_list ns))"
    using Cons.IH pos by simp
  ultimately show ?case by (simp add: in_bounds_Cons)
qed

lemma offset_of_unflatten: "k < prod_list s \<Longrightarrow> offset_of s (unflatten s k) = k"
proof (induction s arbitrary: k)
  case Nil
  then show ?case by simp
next
  case (Cons n ns)
  have pos: "0 < prod_list ns" using Cons.prems by (cases "prod_list ns") auto
  then show ?case using Cons.IH [of "k mod prod_list ns"] by simp
qed

lemma set_indices: "set (indices s) = {idx. in_bounds s idx}"
proof (rule set_eqI, rule iffI)
  fix idx assume "idx \<in> set (indices s)"
  then show "idx \<in> {idx. in_bounds s idx}"
    by (auto simp: indices_def in_bounds_unflatten)
next
  fix idx assume "idx \<in> {idx. in_bounds s idx}"
  then have b: "in_bounds s idx" by simp
  have "unflatten s (offset_of s idx) \<in> set (indices s)"
    unfolding indices_def using offset_of_less [OF b] by (simp del: unflatten.simps)
  then show "idx \<in> set (indices s)" using unflatten_offset_of [OF b] by simp
qed

lemma sizes_tabulate: "sizes (tabulate s f) = s"
  by (simp add: tabulate_def)

lemma elem_at_tabulate: "in_bounds s idx \<Longrightarrow> elem_at (tabulate s f) idx = f idx"
  using offset_of_less [of s idx] unflatten_offset_of [of s idx]
  by (simp add: elem_at_def tabulate_def indices_def)

lemma wf_tabulate: "wf_tensor (tabulate s f)"
  by (induction s) (simp_all add: wf_tensor_def tabulate_def length_indices)

lemma elems_tabulate_elem_at:
  "length (elems t) = prod_list (sizes t) \<Longrightarrow> elems (tabulate (sizes t) (elem_at t)) = elems t"
  by (rule nth_equalityI) (simp_all add: tabulate_def indices_def elem_at_def offset_of_unflatten)

lemma tabulate_cong:
  "(\<And>idx. in_bounds s idx \<Longrightarrow> f idx = g idx) \<Longrightarrow> tabulate s f = tabulate s g"
  by (simp add: tabulate_def set_indices)

subsection \<open>Unsupported view operations\<close>

text \<open>
  C5. Each of the unsupported inverses (\<open>_fw_primal\<close>, \<open>as_strided\<close>, \<open>_indices\<close>,
  \<open>_values\<close>, \<open>indices\<close>, \<open>values\<close>, \<open>crow_indices\<close>, \<open>col_indices\<close>) raises the
  internal assertion failure on every input and never returns a tensor.
\<close>

theorem unsupported_always_fail:
  "is_internal_assert (fw_primal_inverse base v level) \<and> \<not> succeeds (fw_primal_inverse base v level)
   \<and> is_internal_assert (as_strided_inverse base v sz stride off) \<and> \<not> succeeds (as_strided_inverse base v sz stride off)
   \<and> is_internal_assert (indices_inverse_internal base v) \<and> \<not> succeeds (indices_inverse_internal base v)
   \<and> is_internal_assert (values_inverse_internal base v) \<and> \<not> succeeds (values_inverse_internal base v)
   \<and> is_internal_assert (indices_inverse base v) \<and> \<not> succeeds (indices_inverse base v)
   \<and> is_internal_assert (values_inverse base v) \<and> \<not> succeeds (values_inverse base v)
   \<and> is_internal_assert (crow_indices_inverse base v) \<and> \<not> succeeds (crow_indices_inverse base v)
   \<and> is_internal_assert (col_indices_inverse base v) \<and> \<not> succeeds (col_indices_inverse base v)"
  by (simp add: is_internal_assert_def succeeds_def fw_primal_inverse_def as_strided_inverse_def
      indices_inverse_internal_def values_inverse_internal_def indices_inverse_def
      values_inverse_def crow_indices_inverse_def col_indices_inverse_def)

subsection \<open>Axis normalisation\<close>

lemma maybe_wrap_dim_less: "maybe_wrap_dim dm n = Inr d \<Longrightarrow> 0 < n \<Longrightarrow> d < n"
  by (auto simp: maybe_wrap_dim_def Let_def split: if_splits)

lemma maybe_wrap_dim_nat: "d < n \<Longrightarrow> maybe_wrap_dim (int d) n = Inr d"
  by (auto simp: maybe_wrap_dim_def Let_def)

subsection \<open>Inverses that ignore the base\<close>

text \<open>
  C7. The inverses of view_as_real, view_as_complex, _conj, _neg_view, detach and alias
  are view_as_complex, view_as_real after resolve_conj, conj, neg and the identity, applied
  to the mutated view; two calls that differ in the base alone return the same result.
\<close>

theorem identity_shaped_inverses:
  "view_as_real_inverse base v = view_as_complex v
   \<and> view_as_complex_inverse base w = view_as_real (resolve_conj w)
   \<and> conj_inverse base w = Inr (conj w)
   \<and> neg_view_inverse base u = Inr (neg u)
   \<and> detach_inverse base x = Inr x
   \<and> alias_inverse base x = Inr x
   \<and> view_as_real_inverse base' v = view_as_real_inverse base v
   \<and> view_as_complex_inverse base' w = view_as_complex_inverse base w
   \<and> conj_inverse base' w = conj_inverse base w
   \<and> neg_view_inverse base' u = neg_view_inverse base u
   \<and> detach_inverse base' x = detach_inverse base x
   \<and> alias_inverse base' x = alias_inverse base x"
  by (simp add: view_as_real_inverse_def view_as_complex_inverse_def conj_inverse_def
      neg_view_inverse_def detach_inverse_def alias_inverse_def)

subsection \<open>Squeeze with an axis\<close>

lemma unsqueeze_changes: "unsqueeze v dm \<noteq> Inr v"
proof
  assume a: "unsqueeze v dm = Inr v"
  then obtain d where "v\<lparr>sizes := take d (sizes v) @ [1] @ drop d (sizes v),
      strides := take d (strides v)
        @ [if d \<ge> length (sizes v) then 1 else sizes v ! d * strides v ! d]
        @ drop d (strides v)\<rparr> = v"
    by (auto simp: unsqueeze_def split: sum.splits)
  then have "length (take d (sizes v) @ [1] @ drop d (sizes v)) = length (sizes v)"
    by (metis tensor.select_convs(1) tensor.surjective tensor.update_convs(1) tensor.update_convs(2))
  then show False by simp
qed

lemma unsqueeze_inserts:
  "d \<le> length (sizes v) \<Longrightarrow>
     \<exists>r. unsqueeze v (int d) = Inr r
        \<and> sizes r = take d (sizes v) @ 1 # drop d (sizes v) \<and> elems r = elems v"
  by (simp add: unsqueeze_def maybe_wrap_dim_nat)

text \<open>
  C6. \<open>squeeze_inverse(base, v, dim)\<close> normalises \<open>dim\<close> against the rank of the base
  (an axis out of range is the normaliser's error) and inserts a singleton axis into \<open>v\<close>
  at the normalised axis exactly when \<open>base.size(dim)\<close> is 1; in every other case it returns
  \<open>v\<close> as it is. The two outcomes never coincide: an insertion does not return \<open>v\<close>.
\<close>

theorem squeeze_inverse_dim_conditional:
  "squeeze_inverse_dim base v dm =
     (case maybe_wrap_dim dm (length (sizes base)) of
        Inl e \<Rightarrow> Inl e
      | Inr d \<Rightarrow> if size_dim base (int d) = Inr 1 then unsqueeze v (int d) else Inr v)
   \<and> unsqueeze v dm' \<noteq> Inr v"
proof -
  have "squeeze_inverse_dim base v dm =
     (case maybe_wrap_dim dm (length (sizes base)) of
        Inl e \<Rightarrow> Inl e
      | Inr d \<Rightarrow> if size_dim base (int d) = Inr 1 then unsqueeze v (int d) else Inr v)"
  proof (cases "maybe_wrap_dim dm (length (sizes base))")
    case (Inl e)
    then show ?thesis by (simp add: squeeze_inverse_dim_def unsqueeze_to_dim_def)
  next
    case (Inr d)
    show ?thesis
    proof (cases "sizes base = []")
      case True
      then show ?thesis using Inr
        by (simp add: squeeze_inverse_dim_def unsqueeze_to_dim_def size_dim_def)
    next
      case False
      then have "d < length (sizes base)" using Inr maybe_wrap_dim_less by fastforce
      then show ?thesis using Inr False
        by (simp add: squeeze_inverse_dim_def unsqueeze_to_dim_def size_dim_def
            maybe_wrap_dim_nat)
    qed
  qed
  then show ?thesis using unsqueeze_changes by blast
qed

text \<open>
  C9. For a base of rank zero, \<open>squeeze_inverse(base, v, dim)\<close> returns \<open>v\<close> as it is for
  every axis the normaliser accepts: the guard on the non-empty shape keeps the insertion
  from running.
\<close>

theorem squeeze_inverse_dim_scalar_base:
  assumes "sizes base = []" and "maybe_wrap_dim dm 0 = Inr d"
  shows "squeeze_inverse_dim base v dm = Inr v"
  using assms by (simp add: squeeze_inverse_dim_def unsqueeze_to_dim_def)

theorem squeeze_inverse_dim_scalar_base_witness:
  "sizes \<lparr>sizes = [], strides = [], elems = [5::int]\<rparr> = []
   \<and> maybe_wrap_dim (-1) 0 = Inr 0
   \<and> squeeze_inverse_dim \<lparr>sizes = [], strides = [], elems = [5::int]\<rparr>
        \<lparr>sizes = [], strides = [], elems = [7::int]\<rparr> (-1)
      = Inr \<lparr>sizes = [], strides = [], elems = [7::int]\<rparr>"
  using squeeze_inverse_dim_scalar_base
    [of "\<lparr>sizes = [], strides = [], elems = [5::int]\<rparr>" "-1" 0
        "\<lparr>sizes = [], strides = [], elems = [7::int]\<rparr>"]
  by (simp add: maybe_wrap_dim_def)

subsection \<open>Mirrored forward arguments\<close>

text \<open>
  C10. \<open>expand_inverse\<close>, \<open>view_inverse\<close> (shape overload) and \<open>_reshape_alias_inverse\<close>
  do not read the mirrored forward arguments: two calls on the same mutated view whose
  bases agree in sizes and strides return the same result, whatever \<open>size\<close>, \<open>implicit\<close>
  and \<open>stride\<close> are in either call and whatever the bases hold.
\<close>

theorem mirrored_arguments_ignored:
  assumes "sizes base1 = sizes base2" and "strides base1 = strides base2"
  shows "expand_inverse base1 v sz1 imp1 = expand_inverse base2 v sz2 imp2
   \<and> view_inverse base1 v sz1 = view_inverse base2 v sz2
   \<and> reshape_alias_inverse base1 v sz1 st1 = reshape_alias_inverse base2 v sz2 st2"
  using assms by (simp add: expand_inverse_def view_inverse_def reshape_alias_inverse_def)

theorem mirrored_arguments_ignored_witness:
  "sizes \<lparr>sizes = [1, 2], strides = [2, 1], elems = [0, 0::int]\<rparr>
     = sizes \<lparr>sizes = [1, 2], strides = [2, 1], elems = [8, 9::int]\<rparr>
   \<and> strides \<lparr>sizes = [1, 2], strides = [2, 1], elems = [0, 0::int]\<rparr>
     = strides \<lparr>sizes = [1, 2], strides = [2, 1], elems = [8, 9::int]\<rparr>
   \<and> expand_inverse \<lparr>sizes = [1, 2], strides = [2, 1], elems = [0, 0::int]\<rparr>
        \<lparr>sizes = [3, 2], strides = [2, 1], elems = [1, 2, 3, 4, 5, 6::int]\<rparr> [3, 2] False
     = expand_inverse \<lparr>sizes = [1, 2], strides = [2, 1], elems = [8, 9::int]\<rparr>
        \<lparr>sizes = [3, 2], strides = [2, 1], elems = [1, 2, 3, 4, 5, 6::int]\<rparr> [7] True
   \<and> view_inverse \<lparr>sizes = [1, 2], strides = [2, 1], elems = [0, 0::int]\<rparr>
        \<lparr>sizes = [3, 2], strides = [2, 1], elems = [1, 2, 3, 4, 5, 6::int]\<rparr> [3, 2]
     = view_inverse \<lparr>sizes = [1, 2], strides = [2, 1], elems = [8, 9::int]\<rparr>
        \<lparr>sizes = [3, 2], strides = [2, 1], elems = [1, 2, 3, 4, 5, 6::int]\<rparr> [7]
   \<and> reshape_alias_inverse \<lparr>sizes = [1, 2], strides = [2, 1], elems = [0, 0::int]\<rparr>
        \<lparr>sizes = [3, 2], strides = [2, 1], elems = [1, 2, 3, 4, 5, 6::int]\<rparr> [3, 2] [2, 1]
     = reshape_alias_inverse \<lparr>sizes = [1, 2], strides = [2, 1], elems = [8, 9::int]\<rparr>
        \<lparr>sizes = [3, 2], strides = [2, 1], elems = [1, 2, 3, 4, 5, 6::int]\<rparr> [7] [4]"
  using mirrored_arguments_ignored
    [of "\<lparr>sizes = [1, 2], strides = [2, 1], elems = [0, 0::int]\<rparr>"
        "\<lparr>sizes = [1, 2], strides = [2, 1], elems = [8, 9::int]\<rparr>"
        "\<lparr>sizes = [3, 2], strides = [2, 1], elems = [1, 2, 3, 4, 5, 6::int]\<rparr>"
        "[3, 2]" False "[7]" True "[2, 1]" "[4]"]
  by simp

subsection \<open>Slices and partitions\<close>

text \<open>
  What a scatter over \<open>[a, b)\<close> with step 1 is: inside the region the result holds the
  source, shifted by \<open>a\<close>; outside it holds the base.
\<close>

lemma slice_bounds_inside:
  "0 \<le> a \<Longrightarrow> a \<le> b \<Longrightarrow> b \<le> int n \<Longrightarrow> slice_bounds n (Some a) (Some b) = (nat a, nat b)"
  by (auto simp: slice_bounds_def Let_def)

lemma slice_scatter_region:
  assumes ok: "slice_scatter base v (int d) (Some a) (Some b) 1 = Inr r"
    and d: "d < length (sizes base)"
    and ab: "0 \<le> a" "a \<le> b" "b \<le> int (sizes base ! d)"
    and idx: "in_bounds (sizes base) idx"
  shows "sizes r = sizes base"
    and "elem_at r idx =
      (if a \<le> int (idx ! d) \<and> int (idx ! d) < b
       then elem_at v (idx[d := idx ! d - nat a]) else elem_at base idx)"
proof -
  have ne: "sizes base \<noteq> []" using d by auto
  have r: "r = tabulate (sizes base)
     (\<lambda>idx. if nat a \<le> idx ! d \<and> idx ! d < nat b
        then elem_at v (idx[d := idx ! d - nat a]) else elem_at base idx)"
    using ok ne d ab
    by (auto simp: slice_scatter_def maybe_wrap_dim_nat slice_bounds_inside Let_def
        split: if_splits cong: if_cong)
  show "sizes r = sizes base" by (simp add: r sizes_tabulate)
  show "elem_at r idx =
      (if a \<le> int (idx ! d) \<and> int (idx ! d) < b
       then elem_at v (idx[d := idx ! d - nat a]) else elem_at base idx)"
    using ab by (auto simp: r elem_at_tabulate [OF idx] Let_def)
qed

text \<open>
  Signed 64-bit arithmetic agrees with the integers as long as the exact result fits.
\<close>

lemma sint_in_int64: "in_int64 (sint (w :: 64 word))"
  using sint_ge [of w] sint_lt [of w] by (simp add: in_int64_def)

lemma sint_mult_no_overflow:
  "in_int64 (sint a * sint b) \<Longrightarrow> sint (a * b :: 64 word) = sint a * sint b"
  by (simp add: sint_word_mult in_int64_def signed_take_bit_int_eq_self)

lemma sint_add_no_overflow:
  "in_int64 (sint a + sint b) \<Longrightarrow> sint (a + b :: 64 word) = sint a + sint b"
  by (simp add: sint_word_add in_int64_def signed_take_bit_int_eq_self)

lemma sint_fold_add_nth:
  assumes "n \<le> length xs" and "\<forall>k\<le>n. in_int64 (sum_list (map sint (take k xs)))"
  shows "sint (fold (\<lambda>i s. s + xs ! i) [0..<n] (0 :: 64 word)) = sum_list (map sint (take n xs))"
  using assms
proof (induction n)
  case 0
  then show ?case by simp
next
  case (Suc n)
  have ih: "sint (fold (\<lambda>i s. s + xs ! i) [0..<n] (0 :: 64 word)) = sum_list (map sint (take n xs))"
    using Suc by simp
  have tk: "sum_list (map sint (take (Suc n) xs)) = sum_list (map sint (take n xs)) + sint (xs ! n)"
    using Suc.prems by (simp add: take_Suc_conv_app_nth)
  have "in_int64 (sum_list (map sint (take (Suc n) xs)))" using Suc.prems by blast
  then have "in_int64 (sint (fold (\<lambda>i s. s + xs ! i) [0..<n] (0 :: 64 word)) + sint (xs ! n))"
    using ih tk by simp
  then show ?case using ih tk by (simp add: sint_add_no_overflow)
qed

text \<open>
  C3. \<open>split_inverse\<close> scatters the view into the base along the normalised axis over
  the half-open region from \<open>idx * split_size\<close> to the smaller of the axis size and
  \<open>(idx + 1) * split_size\<close>, with step 1; \<open>split_with_sizes_inverse\<close> starts at the sum
  of the sizes before \<open>idx\<close> and ends at the smaller of the axis size and the start plus
  \<open>sizes[idx]\<close>. Both hold whenever the \<open>int64_t\<close> arithmetic of the source does not
  overflow: the product and the sum of \<open>split_inverse\<close>, every partial sum of
  \<open>split_with_sizes_inverse\<close> up to and including \<open>sizes[idx]\<close>, with \<open>idx\<close> inside the
  array and within the 32-bit loop counter. For an axis of size 10, split size 3 gives the
  regions [0,3), [3,6), [6,9), [9,10) and the sizes [2,5,4] give [0,2), [2,7), [7,10).
\<close>

theorem partition_offsets:
  "(in_int64 (sint idx * sint ss) \<and> in_int64 (sint idx * sint ss + sint ss) \<longrightarrow>
     split_inverse base v idx ss dm =
       (case maybe_wrap_dim dm (length (sizes base)) of
          Inl e \<Rightarrow> Inl e
        | Inr d \<Rightarrow>
           (case size_dim base (int d) of
              Inl e \<Rightarrow> Inl e
            | Inr dim_size \<Rightarrow>
                slice_scatter base v (int d) (Some (sint idx * sint ss))
                  (Some (min (int dim_size) ((sint idx + 1) * sint ss))) 1)))
   \<and> (0 \<le> sint idx \<and> sint idx < 2 ^ 31 \<and> nat (sint idx) < length szs
        \<and> (\<forall>k\<le>Suc (nat (sint idx)). in_int64 (sum_list (map sint (take k szs)))) \<longrightarrow>
      split_with_sizes_inverse base v idx szs dm =
       (case maybe_wrap_dim dm (length (sizes base)) of
          Inl e \<Rightarrow> Inl e
        | Inr d \<Rightarrow>
           (case size_dim base (int d) of
              Inl e \<Rightarrow> Inl e
            | Inr dim_size \<Rightarrow>
                slice_scatter base v (int d)
                  (Some (sum_list (map sint (take (nat (sint idx)) szs))))
                  (Some (min (int dim_size)
                     (sum_list (map sint (take (nat (sint idx)) szs)) + sint (szs ! nat (sint idx)))))
                  1)))
   \<and> (sizes base = [10] \<longrightarrow>
        split_inverse base v0 0 3 0 = slice_scatter base v0 0 (Some 0) (Some 3) 1
      \<and> split_inverse base v1 1 3 0 = slice_scatter base v1 0 (Some 3) (Some 6) 1
      \<and> split_inverse base v2 2 3 0 = slice_scatter base v2 0 (Some 6) (Some 9) 1
      \<and> split_inverse base v3 3 3 0 = slice_scatter base v3 0 (Some 9) (Some 10) 1
      \<and> split_with_sizes_inverse base w0 0 [2, 5, 4] 0 = slice_scatter base w0 0 (Some 0) (Some 2) 1
      \<and> split_with_sizes_inverse base w1 1 [2, 5, 4] 0 = slice_scatter base w1 0 (Some 2) (Some 7) 1
      \<and> split_with_sizes_inverse base w2 2 [2, 5, 4] 0 = slice_scatter base w2 0 (Some 7) (Some 10) 1)"
proof (intro conjI impI)
  assume a: "in_int64 (sint idx * sint ss) \<and> in_int64 (sint idx * sint ss + sint ss)"
  then have m: "sint (idx * ss) = sint idx * sint ss"
    by (simp add: sint_mult_no_overflow)
  then have p: "sint (idx * ss + ss) = sint idx * sint ss + sint ss"
    using a by (simp add: sint_add_no_overflow)
  have e: "(sint idx + 1) * sint ss = sint idx * sint ss + sint ss"
    by (simp add: algebra_simps)
  show "split_inverse base v idx ss dm =
       (case maybe_wrap_dim dm (length (sizes base)) of
          Inl e \<Rightarrow> Inl e
        | Inr d \<Rightarrow>
           (case size_dim base (int d) of
              Inl e \<Rightarrow> Inl e
            | Inr dim_size \<Rightarrow>
                slice_scatter base v (int d) (Some (sint idx * sint ss))
                  (Some (min (int dim_size) ((sint idx + 1) * sint ss))) 1))"
    by (auto simp: split_inverse_def Let_def min_def m p e split: sum.splits)
next
  assume a: "0 \<le> sint idx \<and> sint idx < 2 ^ 31 \<and> nat (sint idx) < length szs
        \<and> (\<forall>k\<le>Suc (nat (sint idx)). in_int64 (sum_list (map sint (take k szs))))"
  let ?n = "nat (sint idx)"
  have st: "sint (fold (\<lambda>i s. s + szs ! i) [0..<?n] 0) = sum_list (map sint (take ?n szs))"
    using a by (intro sint_fold_add_nth) auto
  have "in_int64 (sum_list (map sint (take (Suc ?n) szs)))" using a by blast
  then have "in_int64 (sum_list (map sint (take ?n szs)) + sint (szs ! ?n))"
    using a by (simp add: take_Suc_conv_app_nth)
  then have en: "sint (fold (\<lambda>i s. s + szs ! i) [0..<?n] 0 + szs ! ?n)
      = sum_list (map sint (take ?n szs)) + sint (szs ! ?n)"
    using st by (simp add: sint_add_no_overflow)
  show "split_with_sizes_inverse base v idx szs dm =
       (case maybe_wrap_dim dm (length (sizes base)) of
          Inl e \<Rightarrow> Inl e
        | Inr d \<Rightarrow>
           (case size_dim base (int d) of
              Inl e \<Rightarrow> Inl e
            | Inr dim_size \<Rightarrow>
                slice_scatter base v (int d)
                  (Some (sum_list (map sint (take (nat (sint idx)) szs))))
                  (Some (min (int dim_size)
                     (sum_list (map sint (take (nat (sint idx)) szs)) + sint (szs ! nat (sint idx)))))
                  1))"
    using a by (auto simp: split_with_sizes_inverse_def Let_def min_def st en split: sum.splits)
next
  assume s: "sizes base = [10]"
  have w: "maybe_wrap_dim 0 (Suc 0) = Inr 0" by (simp add: maybe_wrap_dim_def)
  have sd: "size_dim base 0 = Inr 10" using s w by (simp add: size_dim_def)
  show "split_inverse base v0 0 3 0 = slice_scatter base v0 0 (Some 0) (Some 3) 1"
    using s w sd by (simp add: split_inverse_def)
  show "split_inverse base v1 1 3 0 = slice_scatter base v1 0 (Some 3) (Some 6) 1"
    using s w sd by (simp add: split_inverse_def)
  show "split_inverse base v2 2 3 0 = slice_scatter base v2 0 (Some 6) (Some 9) 1"
    using s w sd by (simp add: split_inverse_def)
  show "split_inverse base v3 3 3 0 = slice_scatter base v3 0 (Some 9) (Some 10) 1"
    using s w sd by (simp add: split_inverse_def)
  show "split_with_sizes_inverse base w0 0 [2, 5, 4] 0 = slice_scatter base w0 0 (Some 0) (Some 2) 1"
    using s w sd by (simp add: split_with_sizes_inverse_def)
  show "split_with_sizes_inverse base w1 1 [2, 5, 4] 0 = slice_scatter base w1 0 (Some 2) (Some 7) 1"
    using s w sd by (simp add: split_with_sizes_inverse_def)
  show "split_with_sizes_inverse base w2 2 [2, 5, 4] 0 = slice_scatter base w2 0 (Some 7) (Some 10) 1"
    using s w sd by (simp add: split_with_sizes_inverse_def numeral_2_eq_2)
qed

theorem partition_offsets_witness:
  "in_int64 (sint (1 :: 64 word) * sint (3 :: 64 word))
   \<and> in_int64 (sint (1 :: 64 word) * sint (3 :: 64 word) + sint (3 :: 64 word))
   \<and> 0 \<le> sint (1 :: 64 word) \<and> sint (1 :: 64 word) < 2 ^ 31
   \<and> nat (sint (1 :: 64 word)) < length [2, 5, 4 :: 64 word]
   \<and> in_int64 (sum_list (map sint (take 0 [2, 5, 4 :: 64 word])))
   \<and> in_int64 (sum_list (map sint (take 1 [2, 5, 4 :: 64 word])))
   \<and> in_int64 (sum_list (map sint (take 2 [2, 5, 4 :: 64 word])))
   \<and> sizes \<lparr>sizes = [10], strides = [1], elems = [0, 1, 2, 3, 4, 5, 6, 7, 8, 9::int]\<rparr> = [10]
   \<and> split_inverse \<lparr>sizes = [10], strides = [1], elems = [0, 1, 2, 3, 4, 5, 6, 7, 8, 9::int]\<rparr>
        \<lparr>sizes = [3], strides = [1], elems = [100, 101, 102::int]\<rparr> 0 3 0
      = Inr \<lparr>sizes = [10], strides = [1], elems = [100, 101, 102, 3, 4, 5, 6, 7, 8, 9::int]\<rparr>
   \<and> split_inverse \<lparr>sizes = [10], strides = [1], elems = [0, 1, 2, 3, 4, 5, 6, 7, 8, 9::int]\<rparr>
        \<lparr>sizes = [3], strides = [1], elems = [100, 101, 102::int]\<rparr> 1 3 0
      = Inr \<lparr>sizes = [10], strides = [1], elems = [0, 1, 2, 100, 101, 102, 6, 7, 8, 9::int]\<rparr>
   \<and> split_inverse \<lparr>sizes = [10], strides = [1], elems = [0, 1, 2, 3, 4, 5, 6, 7, 8, 9::int]\<rparr>
        \<lparr>sizes = [3], strides = [1], elems = [100, 101, 102::int]\<rparr> 2 3 0
      = Inr \<lparr>sizes = [10], strides = [1], elems = [0, 1, 2, 3, 4, 5, 100, 101, 102, 9::int]\<rparr>
   \<and> split_inverse \<lparr>sizes = [10], strides = [1], elems = [0, 1, 2, 3, 4, 5, 6, 7, 8, 9::int]\<rparr>
        \<lparr>sizes = [1], strides = [1], elems = [100::int]\<rparr> 3 3 0
      = Inr \<lparr>sizes = [10], strides = [1], elems = [0, 1, 2, 3, 4, 5, 6, 7, 8, 100::int]\<rparr>
   \<and> split_with_sizes_inverse \<lparr>sizes = [10], strides = [1], elems = [0, 1, 2, 3, 4, 5, 6, 7, 8, 9::int]\<rparr>
        \<lparr>sizes = [2], strides = [1], elems = [100, 101::int]\<rparr> 0 [2, 5, 4] 0
      = Inr \<lparr>sizes = [10], strides = [1], elems = [100, 101, 2, 3, 4, 5, 6, 7, 8, 9::int]\<rparr>
   \<and> split_with_sizes_inverse \<lparr>sizes = [10], strides = [1], elems = [0, 1, 2, 3, 4, 5, 6, 7, 8, 9::int]\<rparr>
        \<lparr>sizes = [5], strides = [1], elems = [100, 101, 102, 103, 104::int]\<rparr> 1 [2, 5, 4] 0
      = Inr \<lparr>sizes = [10], strides = [1], elems = [0, 1, 100, 101, 102, 103, 104, 7, 8, 9::int]\<rparr>
   \<and> split_with_sizes_inverse \<lparr>sizes = [10], strides = [1], elems = [0, 1, 2, 3, 4, 5, 6, 7, 8, 9::int]\<rparr>
        \<lparr>sizes = [3], strides = [1], elems = [100, 101, 102::int]\<rparr> 2 [2, 5, 4] 0
      = Inr \<lparr>sizes = [10], strides = [1], elems = [0, 1, 2, 3, 4, 5, 6, 100, 101, 102::int]\<rparr>"
proof -
  have s: "sizes \<lparr>sizes = [10], strides = [1], elems = [0, 1, 2, 3, 4, 5, 6, 7, 8, 9::int]\<rparr> = [10]"
    by simp
  have e0: "slice_scatter \<lparr>sizes = [10], strides = [1], elems = [0, 1, 2, 3, 4, 5, 6, 7, 8, 9::int]\<rparr>
      \<lparr>sizes = [3], strides = [1], elems = [100, 101, 102::int]\<rparr> 0 (Some 0) (Some 3) 1
    = Inr \<lparr>sizes = [10], strides = [1], elems = [100, 101, 102, 3, 4, 5, 6, 7, 8, 9::int]\<rparr>"
    by code_simp
  have e1: "slice_scatter \<lparr>sizes = [10], strides = [1], elems = [0, 1, 2, 3, 4, 5, 6, 7, 8, 9::int]\<rparr>
      \<lparr>sizes = [3], strides = [1], elems = [100, 101, 102::int]\<rparr> 0 (Some 3) (Some 6) 1
    = Inr \<lparr>sizes = [10], strides = [1], elems = [0, 1, 2, 100, 101, 102, 6, 7, 8, 9::int]\<rparr>"
    by code_simp
  have e2: "slice_scatter \<lparr>sizes = [10], strides = [1], elems = [0, 1, 2, 3, 4, 5, 6, 7, 8, 9::int]\<rparr>
      \<lparr>sizes = [3], strides = [1], elems = [100, 101, 102::int]\<rparr> 0 (Some 6) (Some 9) 1
    = Inr \<lparr>sizes = [10], strides = [1], elems = [0, 1, 2, 3, 4, 5, 100, 101, 102, 9::int]\<rparr>"
    by code_simp
  have e3: "slice_scatter \<lparr>sizes = [10], strides = [1], elems = [0, 1, 2, 3, 4, 5, 6, 7, 8, 9::int]\<rparr>
      \<lparr>sizes = [1], strides = [1], elems = [100::int]\<rparr> 0 (Some 9) (Some 10) 1
    = Inr \<lparr>sizes = [10], strides = [1], elems = [0, 1, 2, 3, 4, 5, 6, 7, 8, 100::int]\<rparr>"
    by code_simp
  have e4: "slice_scatter \<lparr>sizes = [10], strides = [1], elems = [0, 1, 2, 3, 4, 5, 6, 7, 8, 9::int]\<rparr>
      \<lparr>sizes = [2], strides = [1], elems = [100, 101::int]\<rparr> 0 (Some 0) (Some 2) 1
    = Inr \<lparr>sizes = [10], strides = [1], elems = [100, 101, 2, 3, 4, 5, 6, 7, 8, 9::int]\<rparr>"
    by code_simp
  have e5: "slice_scatter \<lparr>sizes = [10], strides = [1], elems = [0, 1, 2, 3, 4, 5, 6, 7, 8, 9::int]\<rparr>
      \<lparr>sizes = [5], strides = [1], elems = [100, 101, 102, 103, 104::int]\<rparr> 0 (Some 2) (Some 7) 1
    = Inr \<lparr>sizes = [10], strides = [1], elems = [0, 1, 100, 101, 102, 103, 104, 7, 8, 9::int]\<rparr>"
    by code_simp
  have e6: "slice_scatter \<lparr>sizes = [10], strides = [1], elems = [0, 1, 2, 3, 4, 5, 6, 7, 8, 9::int]\<rparr>
      \<lparr>sizes = [3], strides = [1], elems = [100, 101, 102::int]\<rparr> 0 (Some 7) (Some 10) 1
    = Inr \<lparr>sizes = [10], strides = [1], elems = [0, 1, 2, 3, 4, 5, 6, 100, 101, 102::int]\<rparr>"
    by code_simp
  have hA: "in_int64 (sint (1 :: 64 word) * sint (3 :: 64 word))
     \<and> in_int64 (sint (1 :: 64 word) * sint (3 :: 64 word) + sint (3 :: 64 word))"
    by (simp add: in_int64_def)
  have p0: "in_int64 (sum_list (map sint (take 0 [2, 5, 4 :: 64 word])))"
    and p1: "in_int64 (sum_list (map sint (take 1 [2, 5, 4 :: 64 word])))"
    and p2: "in_int64 (sum_list (map sint (take 2 [2, 5, 4 :: 64 word])))"
    by (simp_all add: in_int64_def numeral_2_eq_2)
  have hB: "0 \<le> sint (1 :: 64 word) \<and> sint (1 :: 64 word) < 2 ^ 31
     \<and> nat (sint (1 :: 64 word)) < length [2, 5, 4 :: 64 word]
     \<and> (\<forall>k\<le>Suc (nat (sint (1 :: 64 word))).
           in_int64 (sum_list (map sint (take k [2, 5, 4 :: 64 word]))))"
  proof -
    have "in_int64 (sum_list (map sint (take k [2, 5, 4 :: 64 word])))" if "k \<le> 2" for k
    proof -
      from that have "k = 0 \<or> k = 1 \<or> k = 2" by auto
      then show ?thesis using p0 p1 p2 by auto
    qed
    then show ?thesis by simp
  qed
  note c = partition_offsets
    [where base = "\<lparr>sizes = [10], strides = [1], elems = [0, 1, 2, 3, 4, 5, 6, 7, 8, 9::int]\<rparr>"
       and idx = 1 and ss = 3 and szs = "[2, 5, 4]" and dm = 0
       and v = "\<lparr>sizes = [5], strides = [1], elems = [100, 101, 102, 103, 104::int]\<rparr>"
       and ?v0.0 = "\<lparr>sizes = [3], strides = [1], elems = [100, 101, 102::int]\<rparr>"
       and ?v1.0 = "\<lparr>sizes = [3], strides = [1], elems = [100, 101, 102::int]\<rparr>"
       and ?v2.0 = "\<lparr>sizes = [3], strides = [1], elems = [100, 101, 102::int]\<rparr>"
       and ?v3.0 = "\<lparr>sizes = [1], strides = [1], elems = [100::int]\<rparr>"
       and ?w0.0 = "\<lparr>sizes = [2], strides = [1], elems = [100, 101::int]\<rparr>"
       and ?w1.0 = "\<lparr>sizes = [5], strides = [1], elems = [100, 101, 102, 103, 104::int]\<rparr>"
       and ?w2.0 = "\<lparr>sizes = [3], strides = [1], elems = [100, 101, 102::int]\<rparr>",
     THEN conjunct2, THEN conjunct2, THEN mp, OF s]
  note a = partition_offsets
    [where base = "\<lparr>sizes = [10], strides = [1], elems = [0, 1, 2, 3, 4, 5, 6, 7, 8, 9::int]\<rparr>"
       and idx = 1 and ss = 3 and szs = "[2, 5, 4]" and dm = 0
       and v = "\<lparr>sizes = [3], strides = [1], elems = [100, 101, 102::int]\<rparr>"
       and ?v0.0 = "\<lparr>sizes = [3], strides = [1], elems = [100, 101, 102::int]\<rparr>"
       and ?v1.0 = "\<lparr>sizes = [3], strides = [1], elems = [100, 101, 102::int]\<rparr>"
       and ?v2.0 = "\<lparr>sizes = [3], strides = [1], elems = [100, 101, 102::int]\<rparr>"
       and ?v3.0 = "\<lparr>sizes = [1], strides = [1], elems = [100::int]\<rparr>"
       and ?w0.0 = "\<lparr>sizes = [2], strides = [1], elems = [100, 101::int]\<rparr>"
       and ?w1.0 = "\<lparr>sizes = [5], strides = [1], elems = [100, 101, 102, 103, 104::int]\<rparr>"
       and ?w2.0 = "\<lparr>sizes = [3], strides = [1], elems = [100, 101, 102::int]\<rparr>",
     THEN conjunct1, THEN mp, OF hA]
  note g = partition_offsets
    [where base = "\<lparr>sizes = [10], strides = [1], elems = [0, 1, 2, 3, 4, 5, 6, 7, 8, 9::int]\<rparr>"
       and idx = 1 and ss = 3 and szs = "[2, 5, 4]" and dm = 0
       and v = "\<lparr>sizes = [5], strides = [1], elems = [100, 101, 102, 103, 104::int]\<rparr>"
       and ?v0.0 = "\<lparr>sizes = [3], strides = [1], elems = [100, 101, 102::int]\<rparr>"
       and ?v1.0 = "\<lparr>sizes = [3], strides = [1], elems = [100, 101, 102::int]\<rparr>"
       and ?v2.0 = "\<lparr>sizes = [3], strides = [1], elems = [100, 101, 102::int]\<rparr>"
       and ?v3.0 = "\<lparr>sizes = [1], strides = [1], elems = [100::int]\<rparr>"
       and ?w0.0 = "\<lparr>sizes = [2], strides = [1], elems = [100, 101::int]\<rparr>"
       and ?w1.0 = "\<lparr>sizes = [5], strides = [1], elems = [100, 101, 102, 103, 104::int]\<rparr>"
       and ?w2.0 = "\<lparr>sizes = [3], strides = [1], elems = [100, 101, 102::int]\<rparr>",
     THEN conjunct2, THEN conjunct1, THEN mp, OF hB]
  have gA: "split_inverse \<lparr>sizes = [10], strides = [1], elems = [0, 1, 2, 3, 4, 5, 6, 7, 8, 9::int]\<rparr>
        \<lparr>sizes = [3], strides = [1], elems = [100, 101, 102::int]\<rparr> 1 3 0
      = slice_scatter \<lparr>sizes = [10], strides = [1], elems = [0, 1, 2, 3, 4, 5, 6, 7, 8, 9::int]\<rparr>
        \<lparr>sizes = [3], strides = [1], elems = [100, 101, 102::int]\<rparr> 0 (Some 3) (Some 6) 1"
    using a by (simp add: maybe_wrap_dim_def size_dim_def)
  have gB: "split_with_sizes_inverse \<lparr>sizes = [10], strides = [1], elems = [0, 1, 2, 3, 4, 5, 6, 7, 8, 9::int]\<rparr>
        \<lparr>sizes = [5], strides = [1], elems = [100, 101, 102, 103, 104::int]\<rparr> 1 [2, 5, 4] 0
      = slice_scatter \<lparr>sizes = [10], strides = [1], elems = [0, 1, 2, 3, 4, 5, 6, 7, 8, 9::int]\<rparr>
        \<lparr>sizes = [5], strides = [1], elems = [100, 101, 102, 103, 104::int]\<rparr> 0 (Some 2) (Some 7) 1"
    using g by (simp add: maybe_wrap_dim_def size_dim_def)
  have hyps: "in_int64 (sint (1 :: 64 word) * sint (3 :: 64 word))
     \<and> in_int64 (sint (1 :: 64 word) * sint (3 :: 64 word) + sint (3 :: 64 word))
     \<and> 0 \<le> sint (1 :: 64 word) \<and> sint (1 :: 64 word) < 2 ^ 31
     \<and> nat (sint (1 :: 64 word)) < length [2, 5, 4 :: 64 word]
     \<and> in_int64 (sum_list (map sint (take 0 [2, 5, 4 :: 64 word])))
     \<and> in_int64 (sum_list (map sint (take 1 [2, 5, 4 :: 64 word])))
     \<and> in_int64 (sum_list (map sint (take 2 [2, 5, 4 :: 64 word])))"
    using hA hB p0 p1 p2 by blast
  have res: "True
   \<and> split_inverse \<lparr>sizes = [10], strides = [1], elems = [0, 1, 2, 3, 4, 5, 6, 7, 8, 9::int]\<rparr>
        \<lparr>sizes = [3], strides = [1], elems = [100, 101, 102::int]\<rparr> 0 3 0
      = Inr \<lparr>sizes = [10], strides = [1], elems = [100, 101, 102, 3, 4, 5, 6, 7, 8, 9::int]\<rparr>
   \<and> split_inverse \<lparr>sizes = [10], strides = [1], elems = [0, 1, 2, 3, 4, 5, 6, 7, 8, 9::int]\<rparr>
        \<lparr>sizes = [3], strides = [1], elems = [100, 101, 102::int]\<rparr> 1 3 0
      = Inr \<lparr>sizes = [10], strides = [1], elems = [0, 1, 2, 100, 101, 102, 6, 7, 8, 9::int]\<rparr>
   \<and> split_inverse \<lparr>sizes = [10], strides = [1], elems = [0, 1, 2, 3, 4, 5, 6, 7, 8, 9::int]\<rparr>
        \<lparr>sizes = [3], strides = [1], elems = [100, 101, 102::int]\<rparr> 2 3 0
      = Inr \<lparr>sizes = [10], strides = [1], elems = [0, 1, 2, 3, 4, 5, 100, 101, 102, 9::int]\<rparr>
   \<and> split_inverse \<lparr>sizes = [10], strides = [1], elems = [0, 1, 2, 3, 4, 5, 6, 7, 8, 9::int]\<rparr>
        \<lparr>sizes = [1], strides = [1], elems = [100::int]\<rparr> 3 3 0
      = Inr \<lparr>sizes = [10], strides = [1], elems = [0, 1, 2, 3, 4, 5, 6, 7, 8, 100::int]\<rparr>
   \<and> split_with_sizes_inverse \<lparr>sizes = [10], strides = [1], elems = [0, 1, 2, 3, 4, 5, 6, 7, 8, 9::int]\<rparr>
        \<lparr>sizes = [2], strides = [1], elems = [100, 101::int]\<rparr> 0 [2, 5, 4] 0
      = Inr \<lparr>sizes = [10], strides = [1], elems = [100, 101, 2, 3, 4, 5, 6, 7, 8, 9::int]\<rparr>
   \<and> split_with_sizes_inverse \<lparr>sizes = [10], strides = [1], elems = [0, 1, 2, 3, 4, 5, 6, 7, 8, 9::int]\<rparr>
        \<lparr>sizes = [5], strides = [1], elems = [100, 101, 102, 103, 104::int]\<rparr> 1 [2, 5, 4] 0
      = Inr \<lparr>sizes = [10], strides = [1], elems = [0, 1, 100, 101, 102, 103, 104, 7, 8, 9::int]\<rparr>
   \<and> split_with_sizes_inverse \<lparr>sizes = [10], strides = [1], elems = [0, 1, 2, 3, 4, 5, 6, 7, 8, 9::int]\<rparr>
        \<lparr>sizes = [3], strides = [1], elems = [100, 101, 102::int]\<rparr> 2 [2, 5, 4] 0
      = Inr \<lparr>sizes = [10], strides = [1], elems = [0, 1, 2, 3, 4, 5, 6, 100, 101, 102::int]\<rparr>"
    using c by (simp only: e0 e1 e2 e3 e4 e5 e6 s)
  show ?thesis
    using hyps s res by blast
qed

text \<open>
  Outside these hypotheses the arithmetic wraps around: for \<open>idx = split_size = 2^32\<close> the
  product is 0 modulo \<open>2^64\<close>, \<open>end = 2^32\<close> is clamped to the size of the axis, and the
  whole axis is overwritten.
\<close>

lemma split_inverse_wraps_around:
  "split_inverse \<lparr>sizes = [10], strides = [1], elems = [0, 1, 2, 3, 4, 5, 6, 7, 8, 9::int]\<rparr>
      \<lparr>sizes = [10], strides = [1], elems = [100, 101, 102, 103, 104, 105, 106, 107, 108, 109::int]\<rparr> (2 ^ 32) (2 ^ 32) 0
    = Inr \<lparr>sizes = [10], strides = [1], elems = [100, 101, 102, 103, 104, 105, 106, 107, 108, 109::int]\<rparr>"
  by code_simp

subsection \<open>Scatter onto the main diagonal\<close>

text \<open>
  C8. For a base of shape (4,6) and a patch \<open>d\<close> of 4 elements,
  \<open>diagonal_inverse(base, d, offset=0, dim1=0, dim2=1)\<close> returns a tensor of shape (4,6)
  whose 4 main-diagonal elements are those of \<open>d\<close> and whose 20 off-diagonal elements
  are those of the base.
\<close>

theorem diagonal_scatter_frame:
  assumes b: "sizes base = [4, 6]" and d: "sizes d = [4]"
  shows "\<exists>r. diagonal_inverse base d 0 0 1 = Inr r
           \<and> sizes r = [4, 6]
           \<and> (\<forall>i<4. elem_at r [i, i] = elem_at d [i])
           \<and> (\<forall>i<4. \<forall>j<6. i \<noteq> j \<longrightarrow> elem_at r [i, j] = elem_at base [i, j])
           \<and> length (filter (\<lambda>idx. idx ! 0 = idx ! 1) (indices (sizes r))) = 4
           \<and> length (filter (\<lambda>idx. idx ! 0 \<noteq> idx ! 1) (indices (sizes r))) = 20"
proof -
  define f where "f = (\<lambda>idx. if int (idx ! 1) - int (idx ! 0) = 0
                        then elem_at d (remove_nth 0 (remove_nth 1 idx) @ [idx ! 0])
                        else elem_at base idx)"
  have r: "diagonal_inverse base d 0 0 1 = Inr (tabulate [4, 6] f)"
    using b d
    by (simp add: diagonal_inverse_def diagonal_scatter_def maybe_wrap_dim_def remove_nth_def
        f_def Let_def cong: if_cong)
  have inb: "in_bounds [4, 6] [i, j]" if "i < 4" "j < 6" for i j
    using that by (simp add: in_bounds_def)
  have diag: "elem_at (tabulate [4, 6] f) [i, i] = elem_at d [i]" if "i < 4" for i
    using that by (simp add: elem_at_tabulate inb f_def remove_nth_def)
  have off: "elem_at (tabulate [4, 6] f) [i, j] = elem_at base [i, j]"
    if "i < 4" "j < 6" "i \<noteq> j" for i j
    using that by (simp add: elem_at_tabulate inb f_def)
  have c1: "length (filter (\<lambda>idx. idx ! 0 = idx ! 1) (indices [4, 6])) = 4"
    by code_simp
  have c2: "length (filter (\<lambda>idx. idx ! 0 \<noteq> idx ! 1) (indices [4, 6])) = 20"
    by code_simp
  show ?thesis
    using r diag off c1 c2 by (simp add: sizes_tabulate)
qed

theorem diagonal_scatter_frame_witness:
  "sizes \<lparr>sizes = [4, 6], strides = [6, 1], elems = [0, 1, 2, 3, 4, 5, 6, 7, 8, 9, 10, 11, 12, 13, 14, 15, 16, 17, 18, 19, 20, 21, 22, 23::int]\<rparr> = [4, 6]
   \<and> sizes \<lparr>sizes = [4], strides = [1], elems = [100, 101, 102, 103::int]\<rparr> = [4]
   \<and> (2::nat) < 4 \<and> (1::nat) < 4 \<and> (3::nat) < 6 \<and> (1::nat) \<noteq> 3
   \<and> diagonal_inverse \<lparr>sizes = [4, 6], strides = [6, 1], elems = [0, 1, 2, 3, 4, 5, 6, 7, 8, 9, 10, 11, 12, 13, 14, 15, 16, 17, 18, 19, 20, 21, 22, 23::int]\<rparr>
        \<lparr>sizes = [4], strides = [1], elems = [100, 101, 102, 103::int]\<rparr> 0 0 1
      = Inr \<lparr>sizes = [4, 6], strides = [6, 1], elems = [100, 1, 2, 3, 4, 5, 6, 101, 8, 9, 10, 11, 12, 13, 102, 15, 16, 17, 18, 19, 20, 103, 22, 23::int]\<rparr>
   \<and> (\<exists>r. diagonal_inverse \<lparr>sizes = [4, 6], strides = [6, 1], elems = [0, 1, 2, 3, 4, 5, 6, 7, 8, 9, 10, 11, 12, 13, 14, 15, 16, 17, 18, 19, 20, 21, 22, 23::int]\<rparr>
          \<lparr>sizes = [4], strides = [1], elems = [100, 101, 102, 103::int]\<rparr> 0 0 1 = Inr r
        \<and> elem_at r [2, 2] = 102 \<and> elem_at r [1, 3] = 9)"
proof -
  have hb: "sizes \<lparr>sizes = [4, 6], strides = [6, 1], elems = [0, 1, 2, 3, 4, 5, 6, 7, 8, 9, 10, 11, 12, 13, 14, 15, 16, 17, 18, 19, 20, 21, 22, 23::int]\<rparr> = [4, 6]"
    by simp
  have hd: "sizes \<lparr>sizes = [4], strides = [1], elems = [100, 101, 102, 103::int]\<rparr> = [4]"
    by simp
  have ev: "diagonal_inverse \<lparr>sizes = [4, 6], strides = [6, 1], elems = [0, 1, 2, 3, 4, 5, 6, 7, 8, 9, 10, 11, 12, 13, 14, 15, 16, 17, 18, 19, 20, 21, 22, 23::int]\<rparr>
        \<lparr>sizes = [4], strides = [1], elems = [100, 101, 102, 103::int]\<rparr> 0 0 1
      = Inr \<lparr>sizes = [4, 6], strides = [6, 1], elems = [100, 1, 2, 3, 4, 5, 6, 101, 8, 9, 10, 11, 12, 13, 102, 15, 16, 17, 18, 19, 20, 103, 22, 23::int]\<rparr>"
    by code_simp
  have ed: "elem_at \<lparr>sizes = [4], strides = [1], elems = [100, 101, 102, 103::int]\<rparr> [2] = 102"
    by code_simp
  have eb: "elem_at \<lparr>sizes = [4, 6], strides = [6, 1], elems = [0, 1, 2, 3, 4, 5, 6, 7, 8, 9, 10, 11, 12, 13, 14, 15, 16, 17, 18, 19, 20, 21, 22, 23::int]\<rparr> [1, 3] = 9"
    by code_simp
  from diagonal_scatter_frame [OF hb hd] obtain r where
    r: "diagonal_inverse \<lparr>sizes = [4, 6], strides = [6, 1], elems = [0, 1, 2, 3, 4, 5, 6, 7, 8, 9, 10, 11, 12, 13, 14, 15, 16, 17, 18, 19, 20, 21, 22, 23::int]\<rparr>
          \<lparr>sizes = [4], strides = [1], elems = [100, 101, 102, 103::int]\<rparr> 0 0 1 = Inr r"
    and dg: "\<forall>i<4. elem_at r [i, i] = elem_at \<lparr>sizes = [4], strides = [1], elems = [100, 101, 102, 103::int]\<rparr> [i]"
    and fr: "\<forall>i<4. \<forall>j<6. i \<noteq> j \<longrightarrow> elem_at r [i, j] = elem_at \<lparr>sizes = [4, 6], strides = [6, 1], elems = [0, 1, 2, 3, 4, 5, 6, 7, 8, 9, 10, 11, 12, 13, 14, 15, 16, 17, 18, 19, 20, 21, 22, 23::int]\<rparr> [i, j]"
    by blast
  have "elem_at r [2, 2] = 102"
    using dg ed by simp
  moreover have "elem_at r [1, 3] = 9"
    using fr eb by simp
  ultimately show ?thesis
    using r ev by simp
qed

subsection \<open>Sum to shape\<close>

lemma view_shape_tabulate: "view_shape (tabulate s f) s = Inr (tabulate s f)"
  by (simp add: view_shape_def tabulate_def)

lemma kept_sizes_expandable:
  assumes "length vs = length bs" and "\<forall>k<length vs. vs ! k = bs ! k \<or> bs ! k = 1"
  shows "map2 (\<lambda>n b. if b = 1 \<and> n \<noteq> 1 then 1 else n) vs bs = bs"
  using assms by (intro nth_equalityI) auto

lemma sum_to_expandable:
  assumes v: "sizes v = lead @ vs" and len: "length vs = length shape"
    and ex: "\<forall>k<length vs. vs ! k = shape ! k \<or> shape ! k = 1"
  shows "sum_to v shape = Inr (tabulate shape
     (\<lambda>idx. sum_list (concat (map (\<lambda>l. map (\<lambda>r. elem_at v (l @ r)) (fibre vs shape idx))
                                 (indices lead)))))"
proof -
  have ld: "length (sizes v) - length shape = length lead" using v len by simp
  have k: "map2 (\<lambda>n b. if b = 1 \<and> n \<noteq> 1 then 1 else n) vs shape = shape"
    using len ex by (rule kept_sizes_expandable)
  have k': "map2 (\<lambda>x y. if y = Suc 0 \<and> x \<noteq> Suc 0 then 1 else x) vs shape = shape"
    using k by simp
  show ?thesis
    using v len by (simp add: sum_to_def ld k' Let_def view_shape_tabulate)
qed

lemma expand_sizes_Inr:
  "expand_sizes ns ts = Inr r \<Longrightarrow>
     length r = length ns \<and> (\<forall>k<length r. r ! k = ns ! k \<or> ns ! k = 1)"
proof (induction ns ts arbitrary: r rule: expand_sizes.induct)
  case 1
  then show ?case by simp
next
  case (2 n ns t ts)
  from "2.prems" obtain r' where r': "expand_sizes ns ts = Inr r'"
    and r: "r = n # r' \<or> (n = 1 \<and> r = nat t # r')"
    by (auto split: sum.splits if_splits)
  from "2.IH" [OF r'] have ih: "length r' = length ns"
    "\<forall>k<length r'. r' ! k = ns ! k \<or> ns ! k = 1" by auto
  show ?case using r ih by (auto simp: nth_Cons split: nat.splits)
qed simp_all

lemma expand_shape:
  assumes "expand base sz implicit = Inr b"
  shows "\<exists>lead vs. sizes b = lead @ vs \<and> length lead = length sz - length (sizes base)
           \<and> length vs = length (sizes base)
           \<and> (\<forall>k<length vs. vs ! k = sizes base ! k \<or> sizes base ! k = 1)"
proof -
  let ?ld = "length sz - length (sizes base)"
  from assms obtain r where r: "expand_sizes (sizes base) (drop ?ld sz) = Inr r"
    and b: "sizes b = map nat (take ?ld sz) @ r" and le: "length (sizes base) \<le> length sz"
    by (auto simp: expand_def Let_def sizes_tabulate split: if_splits sum.splits)
  from expand_sizes_Inr [OF r] have "length r = length (sizes base)"
    "\<forall>k<length r. r ! k = sizes base ! k \<or> sizes base ! k = 1" by auto
  then show ?thesis using b le by (intro exI [of _ "map nat (take ?ld sz)"] exI [of _ r]) simp
qed

text \<open>
  C4. \<open>expand_inverse(base, v, size, implicit)\<close> sums away every axis of \<open>v\<close> that the
  base does not have and sums, keeping size 1, every axis where the base has size 1 and
  \<open>v\<close> does not. For a view with the shape of \<open>expand(base, size)\<close>, and more generally
  for a view whose shape is leading axes followed by axes equal to the base's or broadcast
  from 1, the result has exactly the shape of the base, and each element is the sum of the
  elements of \<open>v\<close> broadcast from it. For a base of shape (1,5) and a view of shape (3,5),
  element \<open>[0, j]\<close> of the result is the sum of the three copies \<open>[0, j]\<close>, \<open>[1, j]\<close>,
  \<open>[2, j]\<close> of the view.
\<close>

theorem expand_inverse_sum_to_shape:
  "(expand base sz implicit = Inr b \<and> sizes v = sizes b \<longrightarrow>
     (\<exists>r. expand_inverse base v sz implicit = Inr r
        \<and> sizes r = sizes base
        \<and> (\<forall>idx. in_bounds (sizes base) idx \<longrightarrow>
             elem_at r idx =
               sum_list (concat (map (\<lambda>l. map (\<lambda>t. elem_at v (l @ t))
                    (fibre (drop (length sz - length (sizes base)) (sizes v)) (sizes base) idx))
                    (indices (take (length sz - length (sizes base)) (sizes v))))))))
   \<and> (sizes v = lead @ vs \<and> length vs = length (sizes base)
      \<and> (\<forall>k<length vs. vs ! k = sizes base ! k \<or> sizes base ! k = 1) \<longrightarrow>
     (\<exists>r. expand_inverse base v sz implicit = Inr r
        \<and> sizes r = sizes base
        \<and> (\<forall>idx. in_bounds (sizes base) idx \<longrightarrow>
             elem_at r idx =
               sum_list (concat (map (\<lambda>l. map (\<lambda>t. elem_at v (l @ t)) (fibre vs (sizes base) idx))
                                     (indices lead))))))
   \<and> (sizes base = [1, 5] \<and> sizes v = [3, 5] \<longrightarrow>
     (\<exists>r. expand_inverse base v sz implicit = Inr r
        \<and> sizes r = [1, 5]
        \<and> (\<forall>j<5. elem_at r [0, j] = elem_at v [0, j] + elem_at v [1, j] + elem_at v [2, j])))"
proof (intro conjI impI)
  assume a: "expand base sz implicit = Inr b \<and> sizes v = sizes b"
  then obtain ld ws where s: "sizes v = ld @ ws"
    "length ld = length sz - length (sizes base)" "length ws = length (sizes base)"
    "\<forall>k<length ws. ws ! k = sizes base ! k \<or> sizes base ! k = 1"
    using expand_shape [of base sz implicit b] by auto
  have "expand_inverse base v sz implicit = Inr (tabulate (sizes base)
     (\<lambda>idx. sum_list (concat (map (\<lambda>l. map (\<lambda>r. elem_at v (l @ r)) (fibre ws (sizes base) idx))
                                 (indices ld)))))"
    using s by (simp add: expand_inverse_def sum_to_expandable)
  moreover have "take (length sz - length (sizes base)) (sizes v) = ld"
    "drop (length sz - length (sizes base)) (sizes v) = ws"
    using s by simp_all
  ultimately show "\<exists>r. expand_inverse base v sz implicit = Inr r
        \<and> sizes r = sizes base
        \<and> (\<forall>idx. in_bounds (sizes base) idx \<longrightarrow>
             elem_at r idx =
               sum_list (concat (map (\<lambda>l. map (\<lambda>t. elem_at v (l @ t))
                    (fibre (drop (length sz - length (sizes base)) (sizes v)) (sizes base) idx))
                    (indices (take (length sz - length (sizes base)) (sizes v))))))"
    by (simp add: sizes_tabulate elem_at_tabulate)
next
  assume a: "sizes v = lead @ vs \<and> length vs = length (sizes base)
      \<and> (\<forall>k<length vs. vs ! k = sizes base ! k \<or> sizes base ! k = 1)"
  then have "expand_inverse base v sz implicit = Inr (tabulate (sizes base)
     (\<lambda>idx. sum_list (concat (map (\<lambda>l. map (\<lambda>r. elem_at v (l @ r)) (fibre vs (sizes base) idx))
                                 (indices lead)))))"
    by (simp add: expand_inverse_def sum_to_expandable)
  then show "\<exists>r. expand_inverse base v sz implicit = Inr r
        \<and> sizes r = sizes base
        \<and> (\<forall>idx. in_bounds (sizes base) idx \<longrightarrow>
             elem_at r idx =
               sum_list (concat (map (\<lambda>l. map (\<lambda>t. elem_at v (l @ t)) (fibre vs (sizes base) idx))
                                     (indices lead))))"
    by (simp add: sizes_tabulate elem_at_tabulate)
next
  assume a: "sizes base = [1, 5] \<and> sizes v = [3, 5]"
  have v: "sizes v = [] @ [3, 5]" using a by simp
  have ex: "\<forall>k<length [3, 5::nat]. [3, 5] ! k = [1, 5::nat] ! k \<or> [1, 5::nat] ! k = 1"
    by (simp add: less_Suc_eq)
  have r: "expand_inverse base v sz implicit = Inr (tabulate [1, 5]
     (\<lambda>idx. sum_list (concat (map (\<lambda>l. map (\<lambda>r. elem_at v (l @ r)) (fibre [3, 5] [1, 5] idx))
                                 (indices [])))))"
    using a sum_to_expandable [OF v _ ex] by (simp add: expand_inverse_def)
  have i0: "indices [] = [[]]" by (simp add: indices_def)
  have u3: "[0..<3] = [0, 1, 2]" by (simp add: upt_rec)
  have el: "elem_at (tabulate [1, 5]
     (\<lambda>idx. sum_list (concat (map (\<lambda>l. map (\<lambda>r. elem_at v (l @ r)) (fibre [3, 5] [1, 5] idx))
                                 (indices [])))) ) [0, j]
     = elem_at v [0, j] + elem_at v [1, j] + elem_at v [2, j]" if "j < 5" for j
    using that by (simp add: elem_at_tabulate in_bounds_def i0 u3 add.assoc)
  show "\<exists>r. expand_inverse base v sz implicit = Inr r
        \<and> sizes r = [1, 5]
        \<and> (\<forall>j<5. elem_at r [0, j] = elem_at v [0, j] + elem_at v [1, j] + elem_at v [2, j])"
    using r el by (simp add: sizes_tabulate)
qed

theorem expand_inverse_sum_to_shape_witness:
  "expand \<lparr>sizes = [1, 5], strides = [5, 1], elems = [7, 7, 7, 7, 7::int]\<rparr> [3, 5] False
      = Inr \<lparr>sizes = [3, 5], strides = [5, 1], elems = [7, 7, 7, 7, 7, 7, 7, 7, 7, 7, 7, 7, 7, 7, 7::int]\<rparr>
   \<and> sizes \<lparr>sizes = [3, 5], strides = [5, 1], elems = [1, 2, 3, 4, 5, 6, 7, 8, 9, 10, 11, 12, 13, 14, 15::int]\<rparr>
      = sizes \<lparr>sizes = [3, 5], strides = [5, 1], elems = [7, 7, 7, 7, 7, 7, 7, 7, 7, 7, 7, 7, 7, 7, 7::int]\<rparr>
   \<and> sizes \<lparr>sizes = [3, 5], strides = [5, 1], elems = [1, 2, 3, 4, 5, 6, 7, 8, 9, 10, 11, 12, 13, 14, 15::int]\<rparr> = [] @ [3, 5]
   \<and> length [3, 5::nat] = length (sizes \<lparr>sizes = [1, 5], strides = [5, 1], elems = [7, 7, 7, 7, 7::int]\<rparr>)
   \<and> sizes \<lparr>sizes = [1, 5], strides = [5, 1], elems = [7, 7, 7, 7, 7::int]\<rparr> ! 0 = 1
   \<and> [3, 5] ! 1 = sizes \<lparr>sizes = [1, 5], strides = [5, 1], elems = [7, 7, 7, 7, 7::int]\<rparr> ! 1
   \<and> sizes \<lparr>sizes = [1, 5], strides = [5, 1], elems = [7, 7, 7, 7, 7::int]\<rparr> = [1, 5]
   \<and> sizes \<lparr>sizes = [3, 5], strides = [5, 1], elems = [1, 2, 3, 4, 5, 6, 7, 8, 9, 10, 11, 12, 13, 14, 15::int]\<rparr> = [3, 5]
   \<and> in_bounds (sizes \<lparr>sizes = [1, 5], strides = [5, 1], elems = [7, 7, 7, 7, 7::int]\<rparr>) [0, 2]
   \<and> (2::nat) < 5
   \<and> expand_inverse \<lparr>sizes = [1, 5], strides = [5, 1], elems = [7, 7, 7, 7, 7::int]\<rparr>
        \<lparr>sizes = [3, 5], strides = [5, 1], elems = [1, 2, 3, 4, 5, 6, 7, 8, 9, 10, 11, 12, 13, 14, 15::int]\<rparr> [3, 5] False
      = Inr \<lparr>sizes = [1, 5], strides = [5, 1], elems = [18, 21, 24, 27, 30::int]\<rparr>
   \<and> (\<exists>r. expand_inverse \<lparr>sizes = [1, 5], strides = [5, 1], elems = [7, 7, 7, 7, 7::int]\<rparr>
          \<lparr>sizes = [3, 5], strides = [5, 1], elems = [1, 2, 3, 4, 5, 6, 7, 8, 9, 10, 11, 12, 13, 14, 15::int]\<rparr> [3, 5] False = Inr r
        \<and> sizes r = [1, 5] \<and> elem_at r [0, 2] = 3 + 8 + 13)"
proof -
  have h0: "expand \<lparr>sizes = [1, 5], strides = [5, 1], elems = [7, 7, 7, 7, 7::int]\<rparr> [3, 5] False
      = Inr \<lparr>sizes = [3, 5], strides = [5, 1], elems = [7, 7, 7, 7, 7, 7, 7, 7, 7, 7, 7, 7, 7, 7, 7::int]\<rparr>
     \<and> sizes \<lparr>sizes = [3, 5], strides = [5, 1], elems = [1, 2, 3, 4, 5, 6, 7, 8, 9, 10, 11, 12, 13, 14, 15::int]\<rparr>
      = sizes \<lparr>sizes = [3, 5], strides = [5, 1], elems = [7, 7, 7, 7, 7, 7, 7, 7, 7, 7, 7, 7, 7, 7, 7::int]\<rparr>"
    by code_simp
  have h1: "sizes \<lparr>sizes = [3, 5], strides = [5, 1], elems = [1, 2, 3, 4, 5, 6, 7, 8, 9, 10, 11, 12, 13, 14, 15::int]\<rparr> = [] @ [3, 5]
     \<and> length [3, 5::nat] = length (sizes \<lparr>sizes = [1, 5], strides = [5, 1], elems = [7, 7, 7, 7, 7::int]\<rparr>)
     \<and> (\<forall>k<length [3, 5::nat]. [3, 5] ! k = sizes \<lparr>sizes = [1, 5], strides = [5, 1], elems = [7, 7, 7, 7, 7::int]\<rparr> ! k
          \<or> sizes \<lparr>sizes = [1, 5], strides = [5, 1], elems = [7, 7, 7, 7, 7::int]\<rparr> ! k = 1)"
    by (simp add: less_Suc_eq)
  have h2: "sizes \<lparr>sizes = [1, 5], strides = [5, 1], elems = [7, 7, 7, 7, 7::int]\<rparr> = [1, 5]
     \<and> sizes \<lparr>sizes = [3, 5], strides = [5, 1], elems = [1, 2, 3, 4, 5, 6, 7, 8, 9, 10, 11, 12, 13, 14, 15::int]\<rparr> = [3, 5]"
    by simp
  have ib: "in_bounds (sizes \<lparr>sizes = [1, 5], strides = [5, 1], elems = [7, 7, 7, 7, 7::int]\<rparr>) [0, 2]"
    by (simp add: in_bounds_def)
  have ev: "expand_inverse \<lparr>sizes = [1, 5], strides = [5, 1], elems = [7, 7, 7, 7, 7::int]\<rparr>
        \<lparr>sizes = [3, 5], strides = [5, 1], elems = [1, 2, 3, 4, 5, 6, 7, 8, 9, 10, 11, 12, 13, 14, 15::int]\<rparr> [3, 5] False
      = Inr \<lparr>sizes = [1, 5], strides = [5, 1], elems = [18, 21, 24, 27, 30::int]\<rparr>"
    by code_simp
  have e0: "elem_at \<lparr>sizes = [3, 5], strides = [5, 1], elems = [1, 2, 3, 4, 5, 6, 7, 8, 9, 10, 11, 12, 13, 14, 15::int]\<rparr> [0, 2] = 3"
    and e1: "elem_at \<lparr>sizes = [3, 5], strides = [5, 1], elems = [1, 2, 3, 4, 5, 6, 7, 8, 9, 10, 11, 12, 13, 14, 15::int]\<rparr> [1, 2] = 8"
    and e2: "elem_at \<lparr>sizes = [3, 5], strides = [5, 1], elems = [1, 2, 3, 4, 5, 6, 7, 8, 9, 10, 11, 12, 13, 14, 15::int]\<rparr> [2, 2] = 13"
    by code_simp+
  note inst = expand_inverse_sum_to_shape
    [where v = "\<lparr>sizes = [3, 5], strides = [5, 1], elems = [1, 2, 3, 4, 5, 6, 7, 8, 9, 10, 11, 12, 13, 14, 15::int]\<rparr>"
       and base = "\<lparr>sizes = [1, 5], strides = [5, 1], elems = [7, 7, 7, 7, 7::int]\<rparr>"
       and b = "\<lparr>sizes = [3, 5], strides = [5, 1], elems = [7, 7, 7, 7, 7, 7, 7, 7, 7, 7, 7, 7, 7, 7, 7::int]\<rparr>"
       and lead = "[]" and vs = "[3, 5]" and sz = "[3, 5]" and implicit = False]
  from inst [THEN conjunct1, THEN mp, OF h0] obtain ra where
    "expand_inverse \<lparr>sizes = [1, 5], strides = [5, 1], elems = [7, 7, 7, 7, 7::int]\<rparr>
          \<lparr>sizes = [3, 5], strides = [5, 1], elems = [1, 2, 3, 4, 5, 6, 7, 8, 9, 10, 11, 12, 13, 14, 15::int]\<rparr> [3, 5] False = Inr ra"
    "sizes ra = sizes \<lparr>sizes = [1, 5], strides = [5, 1], elems = [7, 7, 7, 7, 7::int]\<rparr>"
    by blast
  from inst [THEN conjunct2, THEN conjunct1, THEN mp, OF h1] obtain r0 where
    "expand_inverse \<lparr>sizes = [1, 5], strides = [5, 1], elems = [7, 7, 7, 7, 7::int]\<rparr>
          \<lparr>sizes = [3, 5], strides = [5, 1], elems = [1, 2, 3, 4, 5, 6, 7, 8, 9, 10, 11, 12, 13, 14, 15::int]\<rparr> [3, 5] False = Inr r0"
    "sizes r0 = sizes \<lparr>sizes = [1, 5], strides = [5, 1], elems = [7, 7, 7, 7, 7::int]\<rparr>"
    by blast
  from inst [THEN conjunct2, THEN conjunct2, THEN mp, OF h2] obtain r where
    r: "expand_inverse \<lparr>sizes = [1, 5], strides = [5, 1], elems = [7, 7, 7, 7, 7::int]\<rparr>
          \<lparr>sizes = [3, 5], strides = [5, 1], elems = [1, 2, 3, 4, 5, 6, 7, 8, 9, 10, 11, 12, 13, 14, 15::int]\<rparr> [3, 5] False = Inr r"
    and sr: "sizes r = [1, 5]"
    and el: "\<forall>j<5. elem_at r [0, j]
        = elem_at \<lparr>sizes = [3, 5], strides = [5, 1], elems = [1, 2, 3, 4, 5, 6, 7, 8, 9, 10, 11, 12, 13, 14, 15::int]\<rparr> [0, j]
        + elem_at \<lparr>sizes = [3, 5], strides = [5, 1], elems = [1, 2, 3, 4, 5, 6, 7, 8, 9, 10, 11, 12, 13, 14, 15::int]\<rparr> [1, j]
        + elem_at \<lparr>sizes = [3, 5], strides = [5, 1], elems = [1, 2, 3, 4, 5, 6, 7, 8, 9, 10, 11, 12, 13, 14, 15::int]\<rparr> [2, j]"
    by blast
  have "elem_at r [0, 2] = 3 + 8 + 13"
    using el e0 e1 e2 by simp
  then show ?thesis
    using h0 h1 h2 ib ev r sr by simp
qed

subsection \<open>Permutations of the axes\<close>

lemma is_perm_set: "is_perm n p \<Longrightarrow> set p = {..<n}"
proof -
  assume p: "is_perm n p"
  then have sub: "set p \<subseteq> {..<n}"
    by (auto simp: is_perm_def in_set_conv_nth)
  have "card (set p) = n" using p by (simp add: is_perm_def distinct_card)
  then show "set p = {..<n}" using sub by (simp add: card_subset_eq)
qed

lemma is_perm_surj: "is_perm n p \<Longrightarrow> j < n \<Longrightarrow> \<exists>k<n. p ! k = j"
proof -
  assume p: "is_perm n p" and j: "j < n"
  then have "j \<in> set p" using is_perm_set by blast
  then show ?thesis using p by (auto simp: in_set_conv_nth is_perm_def)
qed

lemma fold_update_length:
  "length (fold (\<lambda>k acc. acc[p ! k := f k]) ks init) = length init"
  by (induction ks arbitrary: init) simp_all

lemma fold_update_nth:
  assumes "distinct p" and "m \<le> length p" and "\<forall>k<m. p ! k < length init" and "k < m"
  shows "fold (\<lambda>k acc. acc[p ! k := f k]) [0..<m] init ! (p ! k) = f k"
  using assms
proof (induction m)
  case 0
  then show ?case by simp
next
  case (Suc m)
  let ?acc = "fold (\<lambda>k acc. acc[p ! k := f k]) [0..<m] init"
  have len: "length ?acc = length init" by (rule fold_update_length)
  show ?case
  proof (cases "k = m")
    case True
    then show ?thesis using Suc.prems len by simp
  next
    case False
    then have km: "k < m" using Suc.prems by simp
    have "p ! k \<noteq> p ! m"
      using Suc.prems km by (simp add: nth_eq_iff_index_eq)
    then show ?thesis using Suc km by simp
  qed
qed

lemma length_place: "length (place p idx) = length p"
  by (simp add: place_def fold_update_length)

lemma place_nth: "is_perm n p \<Longrightarrow> k < n \<Longrightarrow> place p idx ! (p ! k) = idx ! k"
  unfolding place_def by (rule fold_update_nth) (auto simp: is_perm_def)

text \<open>The inverse permutation, as the loop of permute_inverse builds it.\<close>

lemma place_upt_inverse:
  assumes p: "is_perm n p"
  shows "is_perm n (place p [0..<n])"
    and "\<And>k. k < n \<Longrightarrow> place p [0..<n] ! (p ! k) = k"
    and "\<And>j. j < n \<Longrightarrow> p ! (place p [0..<n] ! j) = j"
proof -
  let ?q = "place p [0..<n]"
  have len: "length ?q = n" using p by (simp add: length_place is_perm_def)
  show qk: "?q ! (p ! k) = k" if "k < n" for k
    using place_nth [OF p that, of "[0..<n]"] that by simp
  show pq: "p ! (?q ! j) = j" if j: "j < n" for j
  proof -
    obtain k where "k < n" "p ! k = j" using is_perm_surj [OF p j] by blast
    then show ?thesis using qk by auto
  qed
  have bound: "?q ! j < n" if j: "j < n" for j
  proof -
    obtain k where "k < n" "p ! k = j" using is_perm_surj [OF p j] by blast
    then show ?thesis using qk by auto
  qed
  have "distinct ?q"
    unfolding distinct_conv_nth len
  proof (intro allI impI)
    fix i j assume "i < n" "j < n" "i \<noteq> j"
    then show "?q ! i \<noteq> ?q ! j" using pq by metis
  qed
  then show "is_perm n ?q" using len bound by (simp add: is_perm_def)
qed

lemma place_eq_nth_inverse:
  assumes p: "is_perm n p" and q: "\<And>j. j < n \<Longrightarrow> p ! (q ! j) = j" "\<And>j. j < n \<Longrightarrow> q ! j < n"
    and j: "j < n"
  shows "place p idx ! j = idx ! (q ! j)"
  using place_nth [OF p q(2) [OF j], of idx] q(1) [OF j] by simp

lemma permute_dims_Inr:
  "permute_dims dims n seen = Inr ds \<Longrightarrow>
     length ds = length dims \<and> distinct ds \<and> set ds \<inter> set seen = {}
     \<and> (\<forall>k<length dims. maybe_wrap_dim (dims ! k) n = Inr (ds ! k))"
proof (induction dims arbitrary: seen ds)
  case Nil
  then show ?case by simp
next
  case (Cons d dims)
  from Cons.prems obtain k r where
    k: "maybe_wrap_dim d n = Inr k" "k \<notin> set seen"
    and r: "permute_dims dims n (k # seen) = Inr r" and ds: "ds = k # r"
    by (auto split: sum.splits if_splits)
  from Cons.IH [OF r] have ih: "length r = length dims" "distinct r"
    "set r \<inter> set (k # seen) = {}"
    "\<forall>j<length dims. maybe_wrap_dim (dims ! j) n = Inr (r ! j)"
    by auto
  show ?case using k ds ih by (auto simp: nth_Cons split: nat.splits)
qed

lemma permute_dims_of_nat:
  "distinct q \<Longrightarrow> \<forall>x\<in>set q. x < n \<Longrightarrow> set q \<inter> set seen = {} \<Longrightarrow>
     permute_dims (map int q) n seen = Inr q"
proof (induction q arbitrary: seen)
  case Nil
  then show ?case by simp
next
  case (Cons a q)
  have "permute_dims (map int q) n (a # seen) = Inr q"
    using Cons.prems by (intro Cons.IH) auto
  then show ?case using Cons.prems by (simp add: maybe_wrap_dim_nat)
qed

lemma invert_loop_fold:
  "\<forall>i\<in>set ks. maybe_wrap_dim (dims ! i) n = Inr (ds ! i) \<Longrightarrow>
     invert_loop dims n ks (map int acc)
       = Inr (map int (fold (\<lambda>i acc. acc[ds ! i := i]) ks acc))"
  by (induction ks arbitrary: acc) (simp_all add: map_update [symmetric])

lemma inverted_dims_place:
  assumes "length ds = length dims"
    and "\<forall>k<length dims. maybe_wrap_dim (dims ! k) (length dims) = Inr (ds ! k)"
  shows "inverted_dims dims = Inr (map int (place ds [0..<length dims]))"
proof -
  let ?n = "length dims"
  have "invert_loop dims ?n [0..<?n] (map int (replicate ?n 0))
      = Inr (map int (fold (\<lambda>i acc. acc[ds ! i := i]) [0..<?n] (replicate ?n 0)))"
    using assms(2) by (intro invert_loop_fold) simp
  moreover have "fold (\<lambda>i acc. acc[ds ! i := i]) [0..<?n] (replicate ?n 0)
      = fold (\<lambda>k acc. acc[ds ! k := [0..<?n] ! k]) [0..<?n] (replicate ?n 0)"
    by (rule fold_cong) auto
  ultimately show ?thesis
    using assms(1) by (simp add: inverted_dims_def place_def Let_def)
qed

lemma permute_dims_is_perm:
  assumes "permute_dims dims n [] = Inr ds" and "length dims = n"
  shows "is_perm n ds"
proof -
  from permute_dims_Inr [OF assms(1)] have l: "length ds = length dims" and d: "distinct ds"
    and w: "\<forall>k<length dims. maybe_wrap_dim (dims ! k) n = Inr (ds ! k)"
    by auto
  have "ds ! k < n" if "k < n" for k
    using w that assms(2) maybe_wrap_dim_less [of "dims ! k" n "ds ! k"] by auto
  then show ?thesis using l d assms(2) by (simp add: is_perm_def)
qed

lemma elem_at_map_indices:
  "in_bounds s idx \<Longrightarrow> elem_at \<lparr>sizes = s, strides = st, elems = map f (indices s)\<rparr> idx = f idx"
  using offset_of_less [of s idx] unflatten_offset_of [of s idx]
  by (simp add: elem_at_def indices_def)

lemma place_place:
  assumes p: "is_perm n p" and idx: "length idx = n"
  shows "place p (place (place p [0..<n]) idx) = idx"
proof (rule nth_equalityI)
  let ?q = "place p [0..<n]"
  note q = place_upt_inverse [OF p]
  show "length (place p (place ?q idx)) = length idx"
    using p idx by (simp add: length_place is_perm_def)
  fix j assume "j < length (place p (place ?q idx))"
  then have j: "j < n" using p by (simp add: length_place is_perm_def)
  have qj: "?q ! j < n" using q(1) j by (simp add: is_perm_def)
  have "place p (place ?q idx) ! j = place ?q idx ! (?q ! j)"
    using place_nth [OF p qj, of "place ?q idx"] q(3) [OF j] by simp
  also have "\<dots> = idx ! j" by (rule place_nth [OF q(1) j])
  finally show "place p (place ?q idx) ! j = idx ! j" .
qed

lemma place_inverse_in_bounds:
  assumes p: "is_perm n p" and s: "length s = n" and idx: "in_bounds s idx"
  shows "in_bounds (map (\<lambda>d. s ! d) p) (place (place p [0..<n]) idx)"
proof (rule in_boundsI)
  let ?q = "place p [0..<n]"
  note q = place_upt_inverse [OF p]
  have lp: "length p = n" using p by (simp add: is_perm_def)
  show "length (place ?q idx) = length (map (\<lambda>d. s ! d) p)"
    using q(1) lp by (simp add: length_place is_perm_def)
  fix k assume "k < length (map (\<lambda>d. s ! d) p)"
  then have k: "k < n" using lp by simp
  have pk: "p ! k < n" using p k by (simp add: is_perm_def)
  have "place ?q idx ! k = idx ! (p ! k)"
    using place_nth [OF q(1) pk, of idx] q(2) [OF k] by simp
  also have "\<dots> < s ! (p ! k)" using in_bounds_nth [OF idx] pk s by simp
  finally show "place ?q idx ! k < map (\<lambda>d. s ! d) p ! k" using k lp by simp
qed

lemma map_nth_inverse:
  assumes p: "is_perm n p" and xs: "length xs = n"
  shows "map (\<lambda>d. map (\<lambda>d. xs ! d) p ! d) (place p [0..<n]) = xs"
proof (rule nth_equalityI)
  let ?q = "place p [0..<n]"
  note q = place_upt_inverse [OF p]
  have lq: "length ?q = n" and lp: "length p = n" using q(1) p by (simp_all add: is_perm_def)
  show "length (map (\<lambda>d. map (\<lambda>d. xs ! d) p ! d) ?q) = length xs" using lq xs by simp
  fix k assume "k < length (map (\<lambda>d. map (\<lambda>d. xs ! d) p ! d) ?q)"
  then have k: "k < n" using lq by simp
  have qk: "?q ! k < n" using q(1) k by (simp add: is_perm_def)
  show "map (\<lambda>d. map (\<lambda>d. xs ! d) p ! d) ?q ! k = xs ! k"
    using k qk lq lp q(3) [OF k] by simp
qed

lemma permute_round_trip:
  assumes wf: "wf_tensor x" and fw: "permute x dims = Inr y"
  shows "permute_inverse base y dims = Inr x"
proof -
  let ?n = "length (sizes x)"
  from fw have len: "length dims = ?n" by (auto simp: permute_def split: if_splits)
  from fw len obtain ds where ds: "permute_dims dims ?n [] = Inr ds"
    and y: "y = \<lparr>sizes = map (\<lambda>d. sizes x ! d) ds, strides = map (\<lambda>d. strides x ! d) ds,
                 elems = map (\<lambda>idx. elem_at x (place ds idx))
                             (indices (map (\<lambda>d. sizes x ! d) ds))\<rparr>"
    by (auto simp: permute_def split: sum.splits)
  have p: "is_perm ?n ds" using ds len by (rule permute_dims_is_perm)
  let ?q = "place ds [0..<?n]"
  note q = place_upt_inverse [OF p]
  have lds: "length ds = ?n" using p by (simp add: is_perm_def)
  have inv: "inverted_dims dims = Inr (map int ?q)"
    using inverted_dims_place [of ds dims] permute_dims_Inr [OF ds] len by simp
  have pq: "permute_dims (map int ?q) ?n [] = Inr ?q"
    using q(1) by (intro permute_dims_of_nat) (auto simp: is_perm_def in_set_conv_nth)
  have lq: "length ?q = ?n" using q(1) by (simp add: is_perm_def)
  have sz: "map (\<lambda>d. map (\<lambda>d. sizes x ! d) ds ! d) ?q = sizes x"
    using p by (rule map_nth_inverse) simp
  have st: "map (\<lambda>d. map (\<lambda>d. strides x ! d) ds ! d) ?q = strides x"
    using p wf by (intro map_nth_inverse) (simp_all add: wf_tensor_def)
  have el: "map (\<lambda>idx. elem_at y (place ?q idx)) (indices (sizes x)) = elems x"
  proof -
    have "elem_at y (place ?q idx) = elem_at x idx" if "in_bounds (sizes x) idx" for idx
    proof -
      have "in_bounds (map (\<lambda>d. sizes x ! d) ds) (place ?q idx)"
        using p _ that by (rule place_inverse_in_bounds) simp
      then have "elem_at y (place ?q idx) = elem_at x (place ds (place ?q idx))"
        unfolding y by (rule elem_at_map_indices)
      then show ?thesis using place_place [OF p] in_bounds_length [OF that] by simp
    qed
    then have "map (\<lambda>idx. elem_at y (place ?q idx)) (indices (sizes x))
        = map (elem_at x) (indices (sizes x))"
      by (simp add: set_indices)
    also have "\<dots> = elems x"
      using elems_tabulate_elem_at [of x] wf by (simp add: tabulate_def wf_tensor_def)
    finally show ?thesis .
  qed
  have ly: "length (sizes y) = ?n" using y lds by simp
  have "permute y (map int ?q)
      = Inr \<lparr>sizes = map (\<lambda>d. sizes y ! d) ?q, strides = map (\<lambda>d. strides y ! d) ?q,
             elems = map (\<lambda>idx. elem_at y (place ?q idx))
                         (indices (map (\<lambda>d. sizes y ! d) ?q))\<rparr>"
    using pq lq ly by (simp add: permute_def)
  also have "\<dots> = Inr x"
    using sz st el by (simp add: y)
  finally show ?thesis
    using inv by (simp add: permute_inverse_def permute_inverse_self_def)
qed


text \<open>
  C2 (as amended). \<open>permute_inverse(base, v, dims)\<close> builds \<open>dims_\<close> with
  \<open>dims_[wrap(dims[i], rank)] = i\<close> for each \<open>i\<close> and returns \<open>v.permute(dims_)\<close>;
  consequently, for every valid axis permutation \<open>dims\<close> of a tensor \<open>x\<close>, applying
  \<open>permute_inverse\<close> with the same \<open>dims\<close> to \<open>x.permute(dims)\<close> restores \<open>x\<close> (sizes,
  strides and elements), and applying it twice to \<open>x\<close> restores \<open>x\<close> when \<open>dims\<close> is its own
  inverse.
\<close>

theorem permute_inverse_group_inverse:
  assumes wf: "wf_tensor x" and fw: "permute x dims = Inr y"
  shows "\<exists>dims_inv. inverted_dims dims = Inr dims_inv
           \<and> length dims_inv = length dims
           \<and> (\<forall>i<length dims. \<exists>k<length dims.
                  maybe_wrap_dim (dims ! i) (length dims) = Inr k \<and> dims_inv ! k = int i)
           \<and> permute_inverse base v dims = permute v dims_inv
           \<and> permute_inverse base y dims = Inr x
           \<and> (dims_inv = dims \<longrightarrow> permute_inverse_twice base x dims = Inr x)"
proof -
  let ?n = "length dims"
  from fw have len: "?n = length (sizes x)" by (auto simp: permute_def split: if_splits)
  from fw len obtain ds where ds: "permute_dims dims ?n [] = Inr ds"
    by (auto simp: permute_def split: sum.splits)
  have p: "is_perm ?n ds" using ds by (rule permute_dims_is_perm) simp
  note w = permute_dims_Inr [OF ds]
  let ?q = "place ds [0..<?n]"
  have inv: "inverted_dims dims = Inr (map int ?q)"
    using inverted_dims_place [of ds dims] w by simp
  have lq: "length (map int ?q) = ?n"
    using p by (simp add: length_place is_perm_def)
  have each: "\<exists>k<?n. maybe_wrap_dim (dims ! i) ?n = Inr k \<and> map int ?q ! k = int i"
    if i: "i < ?n" for i
  proof -
    have "ds ! i < ?n" using p i by (simp add: is_perm_def)
    moreover have "maybe_wrap_dim (dims ! i) ?n = Inr (ds ! i)" using w i by simp
    moreover have "map int ?q ! (ds ! i) = int i"
      using place_upt_inverse(2) [OF p i] lq \<open>ds ! i < ?n\<close> by simp
    ultimately show ?thesis by blast
  qed
  have cl: "permute_inverse base v dims = permute v (map int ?q)"
    by (simp add: permute_inverse_def permute_inverse_self_def inv)
  have rt: "permute_inverse base y dims = Inr x"
    using wf fw by (rule permute_round_trip)
  have twice: "permute_inverse_twice base x dims = Inr x" if "map int ?q = dims"
  proof -
    have "permute_inverse base x dims = Inr y"
      using that fw by (simp add: permute_inverse_def permute_inverse_self_def inv)
    then show ?thesis using rt by (simp add: permute_inverse_twice_def)
  qed
  show ?thesis
    using inv lq each cl rt twice by auto
qed



theorem permute_inverse_group_inverse_witness:
  "wf_tensor \<lparr>sizes = [2, 3, 4], strides = [12, 4, 1], elems = [0, 1, 2, 3, 4, 5, 6, 7, 8, 9, 10, 11, 12, 13, 14, 15, 16, 17, 18, 19, 20, 21, 22, 23::int]\<rparr>
   \<and> permute \<lparr>sizes = [2, 3, 4], strides = [12, 4, 1], elems = [0, 1, 2, 3, 4, 5, 6, 7, 8, 9, 10, 11, 12, 13, 14, 15, 16, 17, 18, 19, 20, 21, 22, 23::int]\<rparr> [1, 2, 0]
      = Inr \<lparr>sizes = [3, 4, 2], strides = [4, 1, 12], elems = [0, 12, 1, 13, 2, 14, 3, 15, 4, 16, 5, 17, 6, 18, 7, 19, 8, 20, 9, 21, 10, 22, 11, 23::int]\<rparr>
   \<and> inverted_dims [1, 2, 0] = Inr [2, 0, 1]
   \<and> permute_inverse \<lparr>sizes = [2, 3, 4], strides = [12, 4, 1], elems = [0, 1, 2, 3, 4, 5, 6, 7, 8, 9, 10, 11, 12, 13, 14, 15, 16, 17, 18, 19, 20, 21, 22, 23::int]\<rparr>
        \<lparr>sizes = [3, 4, 2], strides = [4, 1, 12], elems = [0, 12, 1, 13, 2, 14, 3, 15, 4, 16, 5, 17, 6, 18, 7, 19, 8, 20, 9, 21, 10, 22, 11, 23::int]\<rparr> [1, 2, 0]
      = Inr \<lparr>sizes = [2, 3, 4], strides = [12, 4, 1], elems = [0, 1, 2, 3, 4, 5, 6, 7, 8, 9, 10, 11, 12, 13, 14, 15, 16, 17, 18, 19, 20, 21, 22, 23::int]\<rparr>
   \<and> wf_tensor \<lparr>sizes = [2, 3], strides = [3, 1], elems = [0, 1, 2, 3, 4, 5::int]\<rparr>
   \<and> permute \<lparr>sizes = [2, 3], strides = [3, 1], elems = [0, 1, 2, 3, 4, 5::int]\<rparr> [-1, 0]
      = Inr \<lparr>sizes = [3, 2], strides = [1, 3], elems = [0, 3, 1, 4, 2, 5::int]\<rparr>
   \<and> inverted_dims [1, 0] = Inr [1, 0]
   \<and> permute_inverse_twice \<lparr>sizes = [2, 3], strides = [3, 1], elems = [0, 1, 2, 3, 4, 5::int]\<rparr>
        \<lparr>sizes = [2, 3], strides = [3, 1], elems = [0, 1, 2, 3, 4, 5::int]\<rparr> [1, 0]
      = Inr \<lparr>sizes = [2, 3], strides = [3, 1], elems = [0, 1, 2, 3, 4, 5::int]\<rparr>"
proof -
  have w1: "wf_tensor \<lparr>sizes = [2, 3, 4], strides = [12, 4, 1], elems = [0, 1, 2, 3, 4, 5, 6, 7, 8, 9, 10, 11, 12, 13, 14, 15, 16, 17, 18, 19, 20, 21, 22, 23::int]\<rparr>"
    by (simp add: wf_tensor_def)
  have f1: "permute \<lparr>sizes = [2, 3, 4], strides = [12, 4, 1], elems = [0, 1, 2, 3, 4, 5, 6, 7, 8, 9, 10, 11, 12, 13, 14, 15, 16, 17, 18, 19, 20, 21, 22, 23::int]\<rparr> [1, 2, 0]
      = Inr \<lparr>sizes = [3, 4, 2], strides = [4, 1, 12], elems = [0, 12, 1, 13, 2, 14, 3, 15, 4, 16, 5, 17, 6, 18, 7, 19, 8, 20, 9, 21, 10, 22, 11, 23::int]\<rparr>"
    by code_simp
  have i1: "inverted_dims [1, 2, 0] = Inr [2, 0, 1]"
    by code_simp
  have w2: "wf_tensor \<lparr>sizes = [2, 3], strides = [3, 1], elems = [0, 1, 2, 3, 4, 5::int]\<rparr>"
    by (simp add: wf_tensor_def)
  have f2: "permute \<lparr>sizes = [2, 3], strides = [3, 1], elems = [0, 1, 2, 3, 4, 5::int]\<rparr> [1, 0]
      = Inr \<lparr>sizes = [3, 2], strides = [1, 3], elems = [0, 3, 1, 4, 2, 5::int]\<rparr>"
    by code_simp
  have f2': "permute \<lparr>sizes = [2, 3], strides = [3, 1], elems = [0, 1, 2, 3, 4, 5::int]\<rparr> [-1, 0]
      = Inr \<lparr>sizes = [3, 2], strides = [1, 3], elems = [0, 3, 1, 4, 2, 5::int]\<rparr>"
    by code_simp
  have i2: "inverted_dims [1, 0] = Inr [1, 0]"
    by code_simp
  from permute_inverse_group_inverse [OF w1 f1, of "\<lparr>sizes = [2, 3, 4], strides = [12, 4, 1], elems = [0, 1, 2, 3, 4, 5, 6, 7, 8, 9, 10, 11, 12, 13, 14, 15, 16, 17, 18, 19, 20, 21, 22, 23::int]\<rparr>"]
  have r1: "permute_inverse \<lparr>sizes = [2, 3, 4], strides = [12, 4, 1], elems = [0, 1, 2, 3, 4, 5, 6, 7, 8, 9, 10, 11, 12, 13, 14, 15, 16, 17, 18, 19, 20, 21, 22, 23::int]\<rparr>
        \<lparr>sizes = [3, 4, 2], strides = [4, 1, 12], elems = [0, 12, 1, 13, 2, 14, 3, 15, 4, 16, 5, 17, 6, 18, 7, 19, 8, 20, 9, 21, 10, 22, 11, 23::int]\<rparr> [1, 2, 0]
      = Inr \<lparr>sizes = [2, 3, 4], strides = [12, 4, 1], elems = [0, 1, 2, 3, 4, 5, 6, 7, 8, 9, 10, 11, 12, 13, 14, 15, 16, 17, 18, 19, 20, 21, 22, 23::int]\<rparr>"
    by blast
  from permute_inverse_group_inverse [OF w2 f2, of "\<lparr>sizes = [2, 3], strides = [3, 1], elems = [0, 1, 2, 3, 4, 5::int]\<rparr>"] i2
  have r2: "permute_inverse_twice \<lparr>sizes = [2, 3], strides = [3, 1], elems = [0, 1, 2, 3, 4, 5::int]\<rparr>
        \<lparr>sizes = [2, 3], strides = [3, 1], elems = [0, 1, 2, 3, 4, 5::int]\<rparr> [1, 0]
      = Inr \<lparr>sizes = [2, 3], strides = [3, 1], elems = [0, 1, 2, 3, 4, 5::int]\<rparr>"
    by auto
  show ?thesis
    using w1 f1 i1 r1 w2 f2' i2 r2 by simp
qed

text \<open>
  The claim as first stated fails: for the cyclic permutation \<open>[1, 2, 0]\<close> of a tensor of
  shape (2,3,4), applying \<open>permute_inverse\<close> twice yields shape (3,4,2), which is the
  forward permutation of the tensor and not its original axis order.
\<close>

theorem permute_inverse_twice_counterexample:
  "permute \<lparr>sizes = [2, 3, 4], strides = [12, 4, 1], elems = [0, 1, 2, 3, 4, 5, 6, 7, 8, 9, 10, 11, 12, 13, 14, 15, 16, 17, 18, 19, 20, 21, 22, 23::int]\<rparr> [1, 2, 0]
      = Inr \<lparr>sizes = [3, 4, 2], strides = [4, 1, 12], elems = [0, 12, 1, 13, 2, 14, 3, 15, 4, 16, 5, 17, 6, 18, 7, 19, 8, 20, 9, 21, 10, 22, 11, 23::int]\<rparr>
   \<and> permute_inverse_twice \<lparr>sizes = [2, 3, 4], strides = [12, 4, 1], elems = [0, 1, 2, 3, 4, 5, 6, 7, 8, 9, 10, 11, 12, 13, 14, 15, 16, 17, 18, 19, 20, 21, 22, 23::int]\<rparr>
        \<lparr>sizes = [2, 3, 4], strides = [12, 4, 1], elems = [0, 1, 2, 3, 4, 5, 6, 7, 8, 9, 10, 11, 12, 13, 14, 15, 16, 17, 18, 19, 20, 21, 22, 23::int]\<rparr> [1, 2, 0]
      = Inr \<lparr>sizes = [3, 4, 2], strides = [4, 1, 12], elems = [0, 12, 1, 13, 2, 14, 3, 15, 4, 16, 5, 17, 6, 18, 7, 19, 8, 20, 9, 21, 10, 22, 11, 23::int]\<rparr>
   \<and> sizes \<lparr>sizes = [3, 4, 2], strides = [4, 1, 12], elems = [0, 12, 1, 13, 2, 14, 3, 15, 4, 16, 5, 17, 6, 18, 7, 19, 8, 20, 9, 21, 10, 22, 11, 23::int]\<rparr>
      \<noteq> sizes \<lparr>sizes = [2, 3, 4], strides = [12, 4, 1], elems = [0, 1, 2, 3, 4, 5, 6, 7, 8, 9, 10, 11, 12, 13, 14, 15, 16, 17, 18, 19, 20, 21, 22, 23::int]\<rparr>"
  by code_simp

subsection \<open>The round trip through expand\<close>

text \<open>
  C1. The round-trip law asks, for every supported view operation, that replaying the view
  on the rebuilt base yields the mutated view again. \<open>expand_inverse\<close> breaks it: for the
  base \<open>[1]\<close> of shape (1) expanded to shape (3), the view is \<open>[1, 1, 1]\<close>; handing this
  view back unchanged rebuilds the base \<open>[3]\<close>, not \<open>[1]\<close>, and the replayed view is
  \<open>[3, 3, 3]\<close>. The same happens for the uniformly mutated view \<open>[2, 2, 2]\<close>, which is
  rebuilt as \<open>[6]\<close>.
\<close>

theorem expand_inverse_round_trip_fails:
  "expand \<lparr>sizes = [1], strides = [1], elems = [1::int]\<rparr> [3] False
      = Inr \<lparr>sizes = [3], strides = [1], elems = [1, 1, 1]\<rparr>
   \<and> expand_inverse \<lparr>sizes = [1], strides = [1], elems = [1::int]\<rparr>
        \<lparr>sizes = [3], strides = [1], elems = [1, 1, 1::int]\<rparr> [3] False
      = Inr \<lparr>sizes = [1], strides = [1], elems = [3]\<rparr>
   \<and> expand \<lparr>sizes = [1], strides = [1], elems = [3::int]\<rparr> [3] False
      = Inr \<lparr>sizes = [3], strides = [1], elems = [3, 3, 3]\<rparr>
   \<and> expand_inverse \<lparr>sizes = [1], strides = [1], elems = [1::int]\<rparr>
        \<lparr>sizes = [3], strides = [1], elems = [2, 2, 2::int]\<rparr> [3] False
      = Inr \<lparr>sizes = [1], strides = [1], elems = [6]\<rparr>
   \<and> expand \<lparr>sizes = [1], strides = [1], elems = [6::int]\<rparr> [3] False
      = Inr \<lparr>sizes = [3], strides = [1], elems = [6, 6, 6]\<rparr>"
  by code_simp

end
